theory Spec2Isabelle
  imports Main "HOL-Library.AList" "HOL-Library.Sublist"
begin

unbundle bit_operations_syntax

section \<open>The WebSocket JSON-RPC client of wax-ws-rpc-js\<close>

text \<open>
  A shallow embedding of the class \<open>WebsocketJsonRpc\<close> of \<open>src/websocket-rpc.ts\<close>, in the
  version that has the subscription registry (the second class of that name in the file).
  The object's private fields are the fields of the record \<open>client\<close>; every method and every
  handler installed on the socket is a function from the record to the updated record.

  What the program does to its environment is recorded in further fields of the same record:
  \<^item> \<open>sockets\<close> counts the \<open>new WebSocketClass(endpoint)\<close> that succeeded (so \<open>this.ws\<close> is set
    as soon as it is positive), and \<open>endpoint_ok\<close> says whether that constructor accepts the
    endpoint or throws;
  \<^item> \<open>sent\<close> is the sequence of values given to \<open>JSON.stringify\<close> and \<open>this.ws.send\<close>;
  \<^item> \<open>timers\<close> holds the armed \<open>setTimeout\<close>/\<open>setInterval\<close> timers under their handles,
    which \<open>nextTimer\<close> allocates;
  \<^item> a \<open>new Promise\<close> made by \<open>call\<close> is a number allocated from \<open>promises\<close>: it stands for
    the pair \<open>resolve\<close>, \<open>reject\<close>; \<open>settled\<close> lists the invocations of those continuations;
  \<^item> a subscription callback is a number, \<open>invoked\<close> lists the callbacks run, and the
    predicate given to \<open>handleMessage\<close> says which callbacks throw on the event at hand;
    callbacks do not call back into the client;
  \<^item> \<open>console\<close> lists the lines written by \<open>console.log\<close> and \<open>console.error\<close>.
  \<^item> \<open>connectPromises\<close> lists the promises made by \<open>connect\<close>, one for each call that gets
    past its guard, with who holds the promise and its state. The constructor, the
    reconnection timer, \<open>call\<close> and the subscriptions discard the promise; a caller of the
    public \<open>connect\<close> holds it and is taken to handle its rejection. The socket made by attempt \<open>k\<close> (counted from 0) keeps the
    \<open>resolve\<close> and \<open>reject\<close> of promise \<open>k\<close> in its handlers;
  \<^item> a discarded promise that is rejected is an unhandled rejection. \<open>onUnhandled\<close> says
    what the runtime does then: \<open>Exit\<close> (Node, by default) ends the process, \<open>Warn\<close> (a
    browser, or Node with a handler installed) goes on. \<open>exited\<close> records that the process
    has ended. It is never reset, and the events of a run after it is set do not take place:
    a statement on a run describes the program where \<open>exited\<close> is false at its end.
  \<open>JSON.stringify\<close> and \<open>ws.send\<close> are taken not to throw, and \<open>ws.send\<close> to return before
  any handler of the socket runs; a socket that runs its \<open>close\<close> handler inside \<open>send\<close> is
  described for the loop that drains the queue, by \<open>processQueue_closing\<close>.
\<close>

subsection \<open>Values\<close>

type_synonym json = string
type_synonym handle = nat
type_synonym cb = nat

datatype jsstr = Undefined | Null | Str string

datatype params =
    P_empty_string
  | P_object "(string \<times> json) list"
  | P_table jsstr jsstr jsstr
  | P_trace jsstr jsstr

record RpcRequest =
  request_id :: string
  rtype :: string
  params :: params

text \<open>A frame given to \<open>ws.send\<close>: the object that \<open>JSON.stringify\<close> serialises.\<close>

datatype frame = Frame (f_request_id: "string option") (f_type: string) (f_params: "params option")

definition stringify :: "RpcRequest \<Rightarrow> frame" where
  "stringify p = Frame (Some (request_id p)) (rtype p) (Some (params p))"

text \<open>
  An inbound frame after \<open>JSON.parse\<close>, as far as the client reads it. \<open>m_type\<close> and
  \<open>m_request_id\<close> are \<open>None\<close> when the property is absent or is not a string; \<open>m_code\<close>,
  \<open>m_table\<close>, \<open>m_scope\<close> are the renderings of the properties in a template literal;
  \<open>m_trace\<close> is \<open>None\<close> when \<open>msg.trace\<close> is \<open>undefined\<close> or \<open>null\<close>, so that reading a
  property of it throws; for every other value, object or primitive, it holds the renderings
  of \<open>msg.trace.account\<close> and \<open>msg.trace.name\<close> in the template literal, which is
  \<open>undefined\<close> for a property that the value does not have.
\<close>

record rpc_msg =
  m_type :: "string option"
  m_request_id :: "string option"
  m_message :: string
  m_result :: json
  m_code :: string
  m_table :: string
  m_scope :: string
  m_trace :: "(string \<times> string) option"

datatype raw_data =
    NotJson
  | BadJson
  | Json rpc_msg

datatype outcome = Resolve json | Reject string

datatype timer_action = T_timeout string handle | T_reconnect | T_heartbeat

datatype log_line = Reconnecting int int int | ParseError

datatype unhandled_mode = Exit | Warn

datatype promise_holder = Discarded | Held

datatype promise_state = P_pending | P_resolved | P_rejected

record WaxRpcOptions =
  o_autoConnect :: "bool option"
  o_autoReconnect :: "bool option"
  o_reconnectInterval :: "int option"
  o_maxRetries :: "int option"
  o_requestTimeOut :: "int option"

record options =
  autoConnect :: bool
  autoReconnect :: bool
  reconnectInterval :: int
  maxRetries :: int
  requestTimeOut :: int

record client =
  isConnected :: bool
  isConnecting :: bool
  pending :: "string \<rightharpoonup> (handle \<times> nat)"
  queue :: "(RpcRequest \<times> handle) list"
  opts :: options
  retryCount :: int
  heartbeatTimer :: "nat option"
  client_id :: string
  tableSubs :: "(string \<times> cb list) list"
  traceSubs :: "(string \<times> cb list) list"
  endpoint_ok :: bool
  sockets :: nat
  sent :: "frame list"
  timers :: "nat \<rightharpoonup> (int \<times> timer_action)"
  nextTimer :: nat
  promises :: nat
  settled :: "(handle \<times> outcome) list"
  invoked :: "cb list"
  console :: "log_line list"
  connectPromises :: "(promise_holder \<times> promise_state) list"
  onUnhandled :: unhandled_mode
  exited :: bool

subsection \<open>uuid\<close>

text \<open>
  \<open>rnd i\<close> is the number drawn in iteration \<open>i\<close> of the loop; \<open>Math.random() * 16 | 0\<close> is
  one of 0 .. 15.
\<close>

definition hex_digit :: "nat \<Rightarrow> char" where
  "hex_digit n = ''0123456789abcdef'' ! (n mod 16)"

definition uuid_piece :: "(nat \<Rightarrow> nat) \<Rightarrow> nat \<Rightarrow> string" where
  "uuid_piece rnd i =
     (if i = 8 \<or> i = 12 \<or> i = 16 \<or> i = 20 then ''-'' else '''') @
     [hex_digit (if i = 12 then 4
                 else if i = 16 then (rnd i mod 16) AND 3
                 else rnd i mod 16)]"

definition uuid :: "(nat \<Rightarrow> nat) \<Rightarrow> string" where
  "uuid rnd = concat (map (uuid_piece rnd) [0..<32])"

subsection \<open>Connection life cycle\<close>

definition HEARTBEAT_INTERVAL :: int where
  "HEARTBEAT_INTERVAL = 30000"

definition setTimer :: "int \<Rightarrow> timer_action \<Rightarrow> client \<Rightarrow> client" where
  "setTimer d a s = s\<lparr>timers := (timers s)(nextTimer s \<mapsto> (d, a)), nextTimer := Suc (nextTimer s)\<rparr>"

definition clearTimer :: "nat \<Rightarrow> client \<Rightarrow> client" where
  "clearTimer t s = s\<lparr>timers := (timers s)(t := None)\<rparr>"

definition ws_send :: "frame \<Rightarrow> client \<Rightarrow> client" where
  "ws_send f s = s\<lparr>sent := sent s @ [f]\<rparr>"

text \<open>
  \<open>resolve\<close> and \<open>reject\<close> of the promise of attempt \<open>k\<close>. A promise is settled once; a
  later \<open>resolve\<close> or \<open>reject\<close> does nothing.
\<close>

definition resolve_connect :: "nat \<Rightarrow> client \<Rightarrow> client" where
  "resolve_connect k s =
     (if k < length (connectPromises s) \<and> snd (connectPromises s ! k) = P_pending
      then s\<lparr>connectPromises :=
               (connectPromises s)[k := (fst (connectPromises s ! k), P_resolved)]\<rparr>
      else s)"

definition reject_connect :: "nat \<Rightarrow> client \<Rightarrow> client" where
  "reject_connect k s =
     (if k < length (connectPromises s) \<and> snd (connectPromises s ! k) = P_pending
      then s\<lparr>connectPromises :=
               (connectPromises s)[k := (fst (connectPromises s ! k), P_rejected)],
             exited := exited s \<or> (fst (connectPromises s ! k) = Discarded \<and> onUnhandled s = Exit)\<rparr>
      else s)"

text \<open>
  \<open>connect\<close>, called by someone who does with the returned promise what \<open>holder\<close> says.
  Behind the guard the promise is made; when the constructor of the socket throws, the
  \<open>catch\<close> rejects it at once.
\<close>

definition connect :: "promise_holder \<Rightarrow> client \<Rightarrow> client" where
  "connect holder s =
     (if isConnected s \<or> isConnecting s then s
      else if endpoint_ok s
      then s\<lparr>isConnecting := True, sockets := Suc (sockets s),
             connectPromises := connectPromises s @ [(holder, P_pending)]\<rparr>
      else reject_connect (length (connectPromises s))
             (s\<lparr>isConnecting := False,
                connectPromises := connectPromises s @ [(holder, P_pending)]\<rparr>))"

definition attemptReconnect :: "client \<Rightarrow> client" where
  "attemptReconnect s =
     (if retryCount s < maxRetries (opts s)
      then setTimer (reconnectInterval (opts s)) T_reconnect
             (s\<lparr>retryCount := retryCount s + 1,
                console := console s @
                  [Reconnecting (retryCount s + 1) (maxRetries (opts s)) (reconnectInterval (opts s))]\<rparr>)
      else s)"

definition stopHeartbeat :: "client \<Rightarrow> client" where
  "stopHeartbeat s =
     (case heartbeatTimer s of
        None \<Rightarrow> s
      | Some t \<Rightarrow> (clearTimer t s)\<lparr>heartbeatTimer := None\<rparr>)"

definition startHeartbeat :: "client \<Rightarrow> client" where
  "startHeartbeat s =
     (setTimer HEARTBEAT_INTERVAL T_heartbeat (stopHeartbeat s))
       \<lparr>heartbeatTimer := Some (nextTimer (stopHeartbeat s))\<rparr>"

definition sendToWs :: "client \<Rightarrow> RpcRequest \<Rightarrow> handle \<Rightarrow> client" where
  "sendToWs s payload h =
     ws_send (stringify payload)
       ((setTimer (requestTimeOut (opts s)) (T_timeout (request_id payload) h) s)
          \<lparr>pending := (pending s)(request_id payload \<mapsto> (h, nextTimer s))\<rparr>)"

function processQueue :: "client \<Rightarrow> client" where
  "processQueue s =
     (case queue s of
        [] \<Rightarrow> s
      | item # rest \<Rightarrow>
          if isConnected s
          then processQueue (sendToWs (s\<lparr>queue := rest\<rparr>) (fst item) (snd item))
          else s)"
  by pat_completeness auto
termination
  by (relation "measure (\<lambda>s. length (queue s))")
     (auto simp: sendToWs_def ws_send_def setTimer_def)

declare processQueue.simps [simp del]

subsection \<open>Subscription registry\<close>

fun split_colon :: "string \<Rightarrow> string \<Rightarrow> string list" where
  "split_colon cur [] = [rev cur]"
| "split_colon cur (c # cs) =
     (if c = CHR '':'' then rev cur # split_colon [] cs else split_colon (c # cur) cs)"

fun split_dcolon :: "string \<Rightarrow> string \<Rightarrow> string list" where
  "split_dcolon cur [] = [rev cur]"
| "split_dcolon cur [c] = [rev (c # cur)]"
| "split_dcolon cur (c # d # cs) =
     (if c = CHR '':'' \<and> d = CHR '':'' then rev cur # split_dcolon [] cs
      else split_dcolon (c # cur) (d # cs))"

definition part :: "string list \<Rightarrow> nat \<Rightarrow> jsstr" where
  "part ps i = (if i < length ps then Str (ps ! i) else Undefined)"

definition table_key :: "string \<Rightarrow> string \<Rightarrow> string \<Rightarrow> string" where
  "table_key code table scope = ''table:'' @ code @ '':'' @ table @ '':'' @ scope"

definition trace_key :: "string \<Rightarrow> string \<Rightarrow> string" where
  "trace_key code action = ''trace:'' @ code @ '':'' @ action"

definition resub_table_frame :: "string \<Rightarrow> string \<Rightarrow> frame" where
  "resub_table_frame cid key =
     Frame (Some cid) ''subscribe_table''
       (Some (P_table (part (split_colon [] key) 1) (part (split_colon [] key) 2)
          (if part (split_colon [] key) 3 = Str ''*'' then Null else part (split_colon [] key) 3)))"

definition resub_trace_frame :: "string \<Rightarrow> string \<Rightarrow> frame" where
  "resub_trace_frame cid key =
     Frame (Some cid) ''subscribe_trace''
       (Some (P_trace (part (split_colon [] key) 1) (part (split_colon [] key) 2)))"

definition resubscribeAll :: "client \<Rightarrow> client" where
  "resubscribeAll s =
     s\<lparr>sent := sent s @ map (\<lambda>e. resub_table_frame (client_id s) (fst e)) (tableSubs s)
                     @ map (\<lambda>e. resub_trace_frame (client_id s) (fst e)) (traceSubs s)\<rparr>"

definition subscribeTable :: "client \<Rightarrow> string \<Rightarrow> string \<Rightarrow> string \<Rightarrow> cb \<Rightarrow> client" where
  "subscribeTable s code scope table callback =
     (let key = table_key code table (if scope = [] then ''*'' else scope);
          s1 = (if map_of (tableSubs s) key = None
                then (let s2 = s\<lparr>tableSubs := AList.update key [] (tableSubs s)\<rparr>;
                          s3 = (if isConnected s2
                                then ws_send (Frame (Some (client_id s2)) ''subscribe_table''
                                        (Some (P_table (Str code) (Str table) (Str scope)))) s2
                                else s2)
                      in if \<not> isConnected s3 \<and> \<not> isConnecting s3 then connect Discarded s3 else s3)
                else s)
      in s1\<lparr>tableSubs := AList.map_entry key (\<lambda>cbs. cbs @ [callback]) (tableSubs s1)\<rparr>)"

text \<open>
  The function returned by \<open>subscribeTable code scope table callback\<close>, run on the client.
\<close>

definition unsubscribeTable :: "client \<Rightarrow> string \<Rightarrow> string \<Rightarrow> string \<Rightarrow> cb \<Rightarrow> client" where
  "unsubscribeTable s code scope table callback =
     (let key = table_key code table (if scope = [] then ''*'' else scope)
      in case map_of (tableSubs s) key of
           None \<Rightarrow> s
         | Some callbacks \<Rightarrow>
             if remove1 callback callbacks = []
             then (let s1 = s\<lparr>tableSubs := AList.delete key (tableSubs s)\<rparr>
                   in if isConnected s1
                      then ws_send (Frame (Some (client_id s1)) ''unsubscribe_table''
                              (Some (P_table (Str code) (Str table) (Str scope)))) s1
                      else s1)
             else s\<lparr>tableSubs := AList.update key (remove1 callback callbacks) (tableSubs s)\<rparr>)"

definition subscribeTrace :: "client \<Rightarrow> string \<Rightarrow> cb \<Rightarrow> string + client" where
  "subscribeTrace s codeAction callback =
     (let ps = split_dcolon [] codeAction;
          code = (if 0 < length ps then ps ! 0 else []);
          action = (if 1 < length ps then ps ! 1 else [])
      in if code = [] \<or> action = [] then Inl (''Invalid format. Use 'contract::action'' @ [CHR 0x27])
         else
           (let key = trace_key code action;
                s1 = (if map_of (traceSubs s) key = None
                      then (let s2 = s\<lparr>traceSubs := AList.update key [] (traceSubs s)\<rparr>;
                                s3 = (if isConnected s2
                                      then ws_send (Frame (Some (client_id s2)) ''subscribe_trace''
                                              (Some (P_trace (Str code) (Str action)))) s2
                                      else s2)
                            in if \<not> isConnected s3 \<and> \<not> isConnecting s3 then connect Discarded s3 else s3)
                      else s)
            in Inr (s1\<lparr>traceSubs := AList.map_entry key (\<lambda>cbs. cbs @ [callback]) (traceSubs s1)\<rparr>)))"

text \<open>
  The function returned by a \<open>subscribeTrace\<close> that split its argument into \<open>code\<close> and
  \<open>action\<close>, run on the client.
\<close>

definition unsubscribeTrace :: "client \<Rightarrow> string \<Rightarrow> string \<Rightarrow> cb \<Rightarrow> client" where
  "unsubscribeTrace s code action callback =
     (let key = trace_key code action
      in case map_of (traceSubs s) key of
           None \<Rightarrow> s
         | Some callbacks \<Rightarrow>
             if remove1 callback callbacks = []
             then (let s1 = s\<lparr>traceSubs := AList.delete key (traceSubs s)\<rparr>
                   in if isConnected s1
                      then ws_send (Frame (Some (client_id s1)) ''unsubscribe_trace''
                              (Some (P_trace (Str code) (Str action)))) s1
                      else s1)
             else s\<lparr>traceSubs := AList.update key (remove1 callback callbacks) (traceSubs s)\<rparr>)"

subsection \<open>Socket handlers\<close>

text \<open>
  The handlers that \<open>connect\<close> installs on the socket of attempt \<open>k\<close>. The handler of
  \<open>close\<close> uses neither \<open>resolve\<close> nor \<open>reject\<close>, so it is the same for every socket.
\<close>

definition onopen :: "client \<Rightarrow> nat \<Rightarrow> client" where
  "onopen s k =
     resolve_connect k (startHeartbeat (processQueue (resubscribeAll
       (s\<lparr>isConnected := True, isConnecting := False, retryCount := 0\<rparr>))))"

definition onclose :: "client \<Rightarrow> client" where
  "onclose s =
     (let s1 = stopHeartbeat (s\<lparr>isConnected := False, isConnecting := False\<rparr>)
      in if autoReconnect (opts s1) then attemptReconnect s1 else s1)"

definition onerror :: "client \<Rightarrow> nat \<Rightarrow> client" where
  "onerror s k =
     (if \<not> isConnected s then reject_connect k (s\<lparr>isConnecting := False\<rparr>)
      else s\<lparr>isConnecting := False\<rparr>)"

text \<open>
  \<open>callbacks.forEach(cb => cb(event))\<close>: the callbacks run in order; one that throws ends
  the loop. The result is the list of callbacks that ran and whether one threw.
\<close>

fun forEach_cb :: "(cb \<Rightarrow> bool) \<Rightarrow> cb list \<Rightarrow> cb list \<times> bool" where
  "forEach_cb thr [] = ([], False)"
| "forEach_cb thr (c # cs) =
     (if thr c then ([c], True)
      else (c # fst (forEach_cb thr cs), snd (forEach_cb thr cs)))"

definition subs_get :: "(string \<times> cb list) list \<Rightarrow> string \<Rightarrow> cb list" where
  "subs_get subs key = (case map_of subs key of None \<Rightarrow> [] | Some cbs \<Rightarrow> cbs)"

definition dispatchSubscription :: "(cb \<Rightarrow> bool) \<Rightarrow> client \<Rightarrow> rpc_msg \<Rightarrow> client \<times> bool" where
  "dispatchSubscription thr s msg =
     (if m_type msg = Some ''table_delta''
      then (let specificKey = table_key (m_code msg) (m_table msg) (m_scope msg);
                wildcardKey = table_key (m_code msg) (m_table msg) ''*'';
                callbacks = subs_get (tableSubs s) specificKey @ subs_get (tableSubs s) wildcardKey
            in (s\<lparr>invoked := invoked s @ fst (forEach_cb thr callbacks)\<rparr>,
                snd (forEach_cb thr callbacks)))
      else if m_type msg = Some ''action_trace''
      then (case m_trace msg of
              None \<Rightarrow> (s, True)
            | Some (account, name) \<Rightarrow>
                (case map_of (traceSubs s) (trace_key account name) of
                   None \<Rightarrow> (s, False)
                 | Some callbacks \<Rightarrow>
                     (s\<lparr>invoked := invoked s @ fst (forEach_cb thr callbacks)\<rparr>,
                      snd (forEach_cb thr callbacks))))
      else (s, False))"

text \<open>The \<open>catch\<close> of \<open>handleMessage\<close>, around a call of \<open>dispatchSubscription\<close>.\<close>

definition caught :: "client \<times> bool \<Rightarrow> client" where
  "caught r = (if snd r then (fst r)\<lparr>console := console (fst r) @ [ParseError]\<rparr> else fst r)"

definition handleMessage :: "(cb \<Rightarrow> bool) \<Rightarrow> client \<Rightarrow> raw_data \<Rightarrow> client" where
  "handleMessage thr s raw =
     (case raw of
        NotJson \<Rightarrow> s
      | BadJson \<Rightarrow> s\<lparr>console := console s @ [ParseError]\<rparr>
      | Json msg \<Rightarrow>
          if m_type msg = Some ''pong'' then s
          else if m_type msg = Some ''table_delta'' then caught (dispatchSubscription thr s msg)
          else if m_type msg = Some ''action_trace'' then caught (dispatchSubscription thr s msg)
          else
            (case m_request_id msg of
               None \<Rightarrow> s
             | Some rid \<Rightarrow>
                 if rid \<noteq> [] \<and> pending s rid \<noteq> None
                 then (case pending s rid of
                         None \<Rightarrow> s
                       | Some request \<Rightarrow>
                           (clearTimer (snd request) s)
                             \<lparr>pending := (pending s)(rid := None),
                              settled := settled s @
                                [(fst request,
                                  if m_type msg = Some ''error'' then Reject (m_message msg)
                                  else Resolve (m_result msg))]\<rparr>)
                 else s))"

text \<open>A timer goes off: the callback given to \<open>setTimeout\<close> or \<open>setInterval\<close> runs.\<close>

definition fire_timer :: "client \<Rightarrow> nat \<Rightarrow> client" where
  "fire_timer s t =
     (case timers s t of
        None \<Rightarrow> s
      | Some (d, T_timeout requestId h) \<Rightarrow>
          if pending s requestId \<noteq> None
          then (clearTimer t s)
                 \<lparr>pending := (pending s)(requestId := None),
                  settled := settled s @ [(h, Reject ''Request Timeout'')]\<rparr>
          else clearTimer t s
      | Some (d, T_reconnect) \<Rightarrow> connect Discarded (clearTimer t s)
      | Some (d, T_heartbeat) \<Rightarrow>
          if isConnected s \<and> 0 < sockets s then ws_send (Frame None ''ping'' None) s else s)"

subsection \<open>A socket that closes during a send\<close>

text \<open>
  \<open>this.ws.send\<close> is code of the socket, and a socket may run its \<open>close\<close> handler before
  \<open>send\<close> returns. The loop of \<open>processQueue\<close> reads \<open>isConnected\<close> again before every entry,
  so such a closure ends it. \<open>sendToWs_closing c\<close> is \<open>sendToWs\<close> on a socket that closes
  inside this \<open>send\<close> if \<open>c\<close> holds; in \<open>processQueue_closing closes\<close> the socket does so at
  the entries that \<open>closes\<close> says, counted from 0 in the order of the loop.
\<close>

definition sendToWs_closing :: "bool \<Rightarrow> client \<Rightarrow> RpcRequest \<Rightarrow> handle \<Rightarrow> client" where
  "sendToWs_closing c s payload h =
     (if c then onclose (sendToWs s payload h) else sendToWs s payload h)"

function processQueue_closing :: "(nat \<Rightarrow> bool) \<Rightarrow> client \<Rightarrow> client" where
  "processQueue_closing closes s =
     (case queue s of
        [] \<Rightarrow> s
      | item # rest \<Rightarrow>
          if isConnected s
          then processQueue_closing (\<lambda>j. closes (Suc j))
                 (sendToWs_closing (closes 0) (s\<lparr>queue := rest\<rparr>) (fst item) (snd item))
          else s)"
  by pat_completeness auto
termination
  by (relation "measure (\<lambda>(closes, s). length (queue s))")
     (auto simp: sendToWs_closing_def sendToWs_def ws_send_def setTimer_def onclose_def Let_def
        attemptReconnect_def stopHeartbeat_def clearTimer_def split: option.splits)

declare processQueue_closing.simps [simp del]

text \<open>The handler of \<open>open\<close> on a socket that closes inside the sends of the drain.\<close>

definition onopen_closing :: "(nat \<Rightarrow> bool) \<Rightarrow> client \<Rightarrow> nat \<Rightarrow> client" where
  "onopen_closing closes s k =
     resolve_connect k (startHeartbeat (processQueue_closing closes (resubscribeAll
       (s\<lparr>isConnected := True, isConnecting := False, retryCount := 0\<rparr>))))"

subsection \<open>The generic call and the constructor\<close>

fun replace_first :: "string \<Rightarrow> string \<Rightarrow> string" where
  "replace_first pat [] = []"
| "replace_first pat (c # cs) =
     (if prefix pat (c # cs) then drop (length pat) (c # cs) else c # replace_first pat cs)"

definition make_payload :: "(nat \<Rightarrow> nat) \<Rightarrow> string \<Rightarrow> (string \<times> json) list \<Rightarrow> RpcRequest" where
  "make_payload rnd method ps =
     \<lparr>request_id = uuid rnd,
      rtype = replace_first ''/v1/chain/'' method,
      params = (if ps \<noteq> [] then P_object ps else P_empty_string)\<rparr>"

text \<open>
  \<open>call\<close>: the argument \<open>ps\<close> lists the own properties of \<open>params\<close> (none for a value that
  is falsy or has no keys). The promise made is number \<open>promises s\<close>.
\<close>

definition call :: "client \<Rightarrow> (nat \<Rightarrow> nat) \<Rightarrow> string \<Rightarrow> (string \<times> json) list \<Rightarrow> client" where
  "call s rnd method ps =
     (if isConnected s
      then sendToWs (s\<lparr>promises := Suc (promises s)\<rparr>) (make_payload rnd method ps) (promises s)
      else (let s1 = s\<lparr>promises := Suc (promises s),
                       queue := queue s @ [(make_payload rnd method ps, promises s)]\<rparr>
            in if \<not> isConnecting s1 then connect Discarded s1 else s1))"

definition default_to :: "'a \<Rightarrow> 'a option \<Rightarrow> 'a" where
  "default_to d v = (case v of None \<Rightarrow> d | Some x \<Rightarrow> x)"

definition resolve_options :: "WaxRpcOptions \<Rightarrow> options" where
  "resolve_options ro =
     \<lparr>autoConnect = default_to True (o_autoConnect ro),
      autoReconnect = default_to True (o_autoReconnect ro),
      reconnectInterval = default_to 3000 (o_reconnectInterval ro),
      maxRetries = default_to 10 (o_maxRetries ro),
      requestTimeOut = default_to 5000 (o_requestTimeOut ro)\<rparr>"

text \<open>
  The constructor, in a runtime that treats an unhandled rejection as \<open>mode\<close> says and with
  an endpoint that the constructor of the socket accepts (\<open>ok\<close>) or refuses.
\<close>

definition fresh_client :: "unhandled_mode \<Rightarrow> bool \<Rightarrow> WaxRpcOptions \<Rightarrow> (nat \<Rightarrow> nat) \<Rightarrow> client" where
  "fresh_client mode ok ro rnd =
     \<lparr>isConnected = False, isConnecting = False, pending = Map.empty, queue = [],
      opts = resolve_options ro, retryCount = 0, heartbeatTimer = None,
      client_id = uuid rnd, tableSubs = [], traceSubs = [],
      endpoint_ok = ok, sockets = 0, sent = [], timers = Map.empty, nextTimer = 0,
      promises = 0, settled = [], invoked = [], console = [],
      connectPromises = [], onUnhandled = mode, exited = False\<rparr>"

definition new_client :: "unhandled_mode \<Rightarrow> bool \<Rightarrow> WaxRpcOptions \<Rightarrow> (nat \<Rightarrow> nat) \<Rightarrow> client" where
  "new_client mode ok ro rnd =
     (if autoConnect (resolve_options ro) then connect Discarded (fresh_client mode ok ro rnd)
      else fresh_client mode ok ro rnd)"

subsection \<open>Runs\<close>

text \<open>
  What can happen to a client: a caller uses its public interface (\<open>connect\<close>, a remote
  procedure, which goes through \<open>call\<close>, a subscription or the function a subscription
  returned), a socket calls one of its handlers (\<open>E_open k\<close> and \<open>E_error k\<close> are the handlers
  of the socket of attempt \<open>k\<close>), or a timer goes off.
\<close>

datatype event =
    E_connect
  | E_open nat
  | E_close
  | E_error nat
  | E_message "cb \<Rightarrow> bool" raw_data
  | E_timer nat
  | E_call "nat \<Rightarrow> nat" string "(string \<times> json) list"
  | E_subscribeTable string string string cb
  | E_unsubscribeTable string string string cb
  | E_subscribeTrace string cb
  | E_unsubscribeTrace string string cb

fun step :: "client \<Rightarrow> event \<Rightarrow> client" where
  "step s E_connect = connect Held s"
| "step s (E_open k) = onopen s k"
| "step s E_close = onclose s"
| "step s (E_error k) = onerror s k"
| "step s (E_message thr raw) = handleMessage thr s raw"
| "step s (E_timer t) = fire_timer s t"
| "step s (E_call rnd method ps) = call s rnd method ps"
| "step s (E_subscribeTable code scope table callback) = subscribeTable s code scope table callback"
| "step s (E_unsubscribeTable code scope table callback) = unsubscribeTable s code scope table callback"
| "step s (E_subscribeTrace codeAction callback) =
     (case subscribeTrace s codeAction callback of Inl e \<Rightarrow> s | Inr s' \<Rightarrow> s')"
| "step s (E_unsubscribeTrace code action callback) = unsubscribeTrace s code action callback"

definition run :: "client \<Rightarrow> event list \<Rightarrow> client" where
  "run s evs = foldl step s evs"

subsection \<open>Notions used in the statements\<close>

text \<open>
  The callbacks that a push event is routed to. A table event reaches the callbacks under
  its exact key and then those under the key with the wildcard scope; a trace event reaches
  the callbacks under its exact key only.
\<close>

definition table_matches :: "client \<Rightarrow> rpc_msg \<Rightarrow> cb list" where
  "table_matches s msg =
     subs_get (tableSubs s) (table_key (m_code msg) (m_table msg) (m_scope msg)) @
     subs_get (tableSubs s) (table_key (m_code msg) (m_table msg) ''*'')"

definition trace_matches :: "client \<Rightarrow> rpc_msg \<Rightarrow> cb list" where
  "trace_matches s msg =
     (case m_trace msg of
        None \<Rightarrow> []
      | Some (account, name) \<Rightarrow> subs_get (traceSubs s) (trace_key account name))"

text \<open>The frames that replay the registry, and the frames of the queued calls.\<close>

definition replay_frames :: "client \<Rightarrow> frame list" where
  "replay_frames s =
     map (\<lambda>e. resub_table_frame (client_id s) (fst e)) (tableSubs s) @
     map (\<lambda>e. resub_trace_frame (client_id s) (fst e)) (traceSubs s)"

definition queue_frames :: "client \<Rightarrow> frame list" where
  "queue_frames s = map (\<lambda>item. stringify (fst item)) (queue s)"

text \<open>Clients and messages that the statements are tried on.\<close>

definition no_options :: WaxRpcOptions where
  "no_options = \<lparr>o_autoConnect = None, o_autoReconnect = None, o_reconnectInterval = None,
     o_maxRetries = None, o_requestTimeOut = None\<rparr>"

definition demo_delta :: rpc_msg where
  "demo_delta = \<lparr>m_type = Some ''table_delta'', m_request_id = None, m_message = [],
     m_result = [], m_code = ''eosio.token'', m_table = ''accounts'', m_scope = ''alice'',
     m_trace = None\<rparr>"

definition demo_trace :: rpc_msg where
  "demo_trace = \<lparr>m_type = Some ''action_trace'', m_request_id = None, m_message = [],
     m_result = [], m_code = ''undefined'', m_table = ''undefined'', m_scope = ''undefined'',
     m_trace = Some (''eosio.token'', ''transfer'')\<rparr>"

definition demo_response :: "string option \<Rightarrow> string \<Rightarrow> rpc_msg" where
  "demo_response ty rid = \<lparr>m_type = ty, m_request_id = Some rid, m_message = ''boom'',
     m_result = ''42'', m_code = ''undefined'', m_table = ''undefined'',
     m_scope = ''undefined'', m_trace = None\<rparr>"

definition demo_subscribed :: client where
  "demo_subscribed = run (new_client Exit True no_options (\<lambda>_. 0))
     [E_open 0,
      E_subscribeTable ''eosio.token'' ''alice'' ''accounts'' 1,
      E_subscribeTable ''eosio.token'' ''alice'' ''accounts'' 2,
      E_subscribeTable ''eosio.token'' [] ''accounts'' 3,
      E_subscribeTable ''eosio.token'' ''bob'' ''accounts'' 4,
      E_subscribeTrace ''eosio.token::transfer'' 5]"

definition demo_calling :: client where
  "demo_calling = run (new_client Exit True no_options (\<lambda>_. 0)) [E_open 0, E_call (\<lambda>_. 1) ''get_info'' []]"

text \<open>
  The handler of \<open>open\<close> with its steps in the order the specification gives them: the
  counter is reset, the queue is drained, the registry is replayed, the heartbeat starts.
\<close>

definition onopen_spec_order :: "client \<Rightarrow> nat \<Rightarrow> client" where
  "onopen_spec_order s k =
     resolve_connect k (startHeartbeat (resubscribeAll (processQueue
       (s\<lparr>isConnected := True, isConnecting := False, retryCount := 0\<rparr>))))"

definition call_event :: "(nat \<Rightarrow> nat) \<times> string \<times> (string \<times> json) list \<Rightarrow> event" where
  "call_event c = E_call (fst c) (fst (snd c)) (snd (snd c))"

definition call_payload :: "(nat \<Rightarrow> nat) \<times> string \<times> (string \<times> json) list \<Rightarrow> RpcRequest" where
  "call_payload c = make_payload (fst c) (fst (snd c)) (snd (snd c))"

definition demo_offline :: client where
  "demo_offline = run (new_client Exit True no_options (\<lambda>_. 0))
     [E_subscribeTable ''eosio.token'' ''alice'' ''accounts'' 1, E_call (\<lambda>_. 1) ''get_info'' []]"

definition demo_two_queued :: client where
  "demo_two_queued = run (new_client Exit True no_options (\<lambda>_. 0))
     (map call_event
        [(\<lambda>_. 1, ''get_info'', []), (\<lambda>_. 2, ''get_abi'', [(''account_name'', ''eosio'')])])"

text \<open>
  A client in a runtime that exits on an unhandled rejection, with one call pending and one
  call queued: it was connected and made a call, lost its socket, its caller called
  \<open>connect\<close> and handled the promise, a second call came, and the new attempt failed.
\<close>

definition demo_closed :: client where
  "demo_closed = run (new_client Exit True no_options (\<lambda>_. 0))
     [E_open 0, E_call (\<lambda>_. 1) ''get_info'' [], E_close, E_connect,
      E_call (\<lambda>_. 2) ''/v1/chain/get_abi'' [(''account_name'', ''eosio'')], E_error 1]"

text \<open>
  The operations that a caller has: \<open>connect\<close>, the remote procedures, the subscriptions and
  the functions they return. The other events come from the socket and from the timers.
\<close>

fun caller_event :: "event \<Rightarrow> bool" where
  "caller_event E_connect = True"
| "caller_event (E_call rnd method ps) = True"
| "caller_event (E_subscribeTable code scope table c) = True"
| "caller_event (E_unsubscribeTable code scope table c) = True"
| "caller_event (E_subscribeTrace codeAction c) = True"
| "caller_event (E_unsubscribeTrace code action c) = True"
| "caller_event e = False"

text \<open>
  A server that never comes back, seen from a client with \<open>maxRetries = 2\<close>: every attempt
  ends with \<open>error\<close> and \<open>close\<close>, and every armed timer goes off. \<open>demo_gone\<close> is that
  client in a runtime that only warns of an unhandled rejection.
\<close>

definition two_retries :: WaxRpcOptions where
  "two_retries = \<lparr>o_autoConnect = None, o_autoReconnect = None, o_reconnectInterval = None,
     o_maxRetries = Some 2, o_requestTimeOut = None\<rparr>"

definition server_gone :: "event list" where
  "server_gone = [E_error 0, E_close, E_timer 0, E_error 1, E_close, E_timer 1, E_error 2, E_close]"

definition demo_gone :: client where
  "demo_gone = run (new_client Warn True two_retries (\<lambda>_. 0)) server_gone"

text \<open>
  A client with \<open>maxRetries = 0\<close>, in a runtime that exits on an unhandled rejection, that
  was connected and lost its socket: its retries are used up and no promise was rejected.
\<close>

definition no_retries :: WaxRpcOptions where
  "no_retries = \<lparr>o_autoConnect = None, o_autoReconnect = None, o_reconnectInterval = None,
     o_maxRetries = Some 0, o_requestTimeOut = None\<rparr>"

definition demo_spent :: client where
  "demo_spent = run (new_client Exit True no_retries (\<lambda>_. 0)) [E_open 0, E_close]"

text \<open>
  The key of a table subscription, and the scenarios of two callbacks registered for one topic
  and then removed: the first two events register, the third and fourth remove.
\<close>

definition table_topic :: "string \<Rightarrow> string \<Rightarrow> string \<Rightarrow> string" where
  "table_topic code scope table = table_key code table (if scope = [] then ''*'' else scope)"

definition table_scenario :: "string \<Rightarrow> string \<Rightarrow> string \<Rightarrow> cb \<Rightarrow> cb \<Rightarrow> cb \<Rightarrow> cb \<Rightarrow> event list" where
  "table_scenario code scope table c1 c2 c c' =
     [E_subscribeTable code scope table c1, E_subscribeTable code scope table c2,
      E_unsubscribeTable code scope table c, E_unsubscribeTable code scope table c']"

definition trace_scenario :: "string \<Rightarrow> string \<Rightarrow> string \<Rightarrow> cb \<Rightarrow> cb \<Rightarrow> cb \<Rightarrow> cb \<Rightarrow> event list" where
  "trace_scenario codeAction code action c1 c2 c c' =
     [E_subscribeTrace codeAction c1, E_subscribeTrace codeAction c2,
      E_unsubscribeTrace code action c, E_unsubscribeTrace code action c']"

definition demo_open :: client where
  "demo_open = run (new_client Exit True no_options (\<lambda>_. 0)) [E_open 0]"

text \<open>
  The types of the subscription control frames. A call is foreign to the client's own
  identifier when the identifier drawn for it is another one and its method is not the type
  of a control frame (the remote procedures of the public interface are not).
\<close>

definition control_types :: "string list" where
  "control_types = [''subscribe_table'', ''unsubscribe_table'', ''subscribe_trace'', ''unsubscribe_trace'']"

definition is_control :: "frame \<Rightarrow> bool" where
  "is_control f = (f_type f \<in> set control_types)"

fun foreign_call :: "string \<Rightarrow> event \<Rightarrow> bool" where
  "foreign_call cid (E_call rnd method ps) =
     (uuid rnd \<noteq> cid \<and> replace_first ''/v1/chain/'' method \<notin> set control_types)"
| "foreign_call cid e = True"

definition control_inv :: "string \<Rightarrow> client \<Rightarrow> bool" where
  "control_inv cid s =
     (client_id s = cid \<and> pending s cid = None
      \<and> (\<forall>item\<in>set (queue s). request_id (fst item) \<noteq> cid \<and> rtype (fst item) \<notin> set control_types)
      \<and> (\<forall>f\<in>set (sent s). is_control f \<longrightarrow> f_request_id f = Some cid))"

fun subscription_event :: "event \<Rightarrow> bool" where
  "subscription_event (E_subscribeTable code scope table c) = True"
| "subscription_event (E_unsubscribeTable code scope table c) = True"
| "subscription_event (E_subscribeTrace codeAction c) = True"
| "subscription_event (E_unsubscribeTrace code action c) = True"
| "subscription_event e = False"

definition demo_mixed :: "event list" where
  "demo_mixed = [E_open 0, E_subscribeTable ''eosio.token'' ''alice'' ''accounts'' 1,
     E_call (\<lambda>_. 1) ''get_info'' [], E_subscribeTrace ''eosio.token::transfer'' 2, E_close,
     E_timer 2, E_open 1]"

text \<open>
  The invariant of the correlation table. \<open>timers_match\<close>: the pending calls and the armed
  deadline timers correspond one to one, and the heartbeat timer is not a deadline timer.
  \<open>handles_once\<close>: every promise made so far is either settled, queued or pending, in exactly
  one of these ways and in one place. \<open>ids_fresh\<close>: the queued calls carry pairwise different
  identifiers, none of them pending.
\<close>

definition settled_handles :: "client \<Rightarrow> handle set" where
  "settled_handles s = fst ` set (settled s)"

definition queued_handles :: "client \<Rightarrow> handle set" where
  "queued_handles s = snd ` set (queue s)"

definition pending_handles :: "client \<Rightarrow> handle set" where
  "pending_handles s = {h. \<exists>rid t. pending s rid = Some (h, t)}"

definition timers_match :: "client \<Rightarrow> bool" where
  "timers_match s \<longleftrightarrow>
     (\<forall>rid h t. pending s rid = Some (h, t) \<longrightarrow> (\<exists>d. timers s t = Some (d, T_timeout rid h)))
   \<and> (\<forall>t d rid h. timers s t = Some (d, T_timeout rid h) \<longrightarrow> pending s rid = Some (h, t))
   \<and> (\<forall>t. timers s t \<noteq> None \<longrightarrow> t < nextTimer s)
   \<and> (\<forall>t. heartbeatTimer s = Some t \<longrightarrow>
          t < nextTimer s \<and> (\<forall>d rid h. timers s t \<noteq> Some (d, T_timeout rid h)))"

definition handle_inj :: "(string \<rightharpoonup> (handle \<times> nat)) \<Rightarrow> bool" where
  "handle_inj m \<longleftrightarrow>
     (\<forall>rid rid' h t t'. m rid = Some (h, t) \<longrightarrow> m rid' = Some (h, t') \<longrightarrow> rid = rid')"

definition handles_once :: "client \<Rightarrow> bool" where
  "handles_once s \<longleftrightarrow>
     distinct (map fst (settled s))
   \<and> distinct (map snd (queue s))
   \<and> settled_handles s \<inter> queued_handles s = {}
   \<and> settled_handles s \<inter> pending_handles s = {}
   \<and> queued_handles s \<inter> pending_handles s = {}
   \<and> handle_inj (pending s)
   \<and> settled_handles s \<union> queued_handles s \<union> pending_handles s = {h. h < promises s}"

definition ids_fresh :: "client \<Rightarrow> bool" where
  "ids_fresh s \<longleftrightarrow>
     distinct (map (\<lambda>item. request_id (fst item)) (queue s))
   \<and> (\<forall>item\<in>set (queue s). pending s (request_id (fst item)) = None)"

definition correlated :: "client \<Rightarrow> bool" where
  "correlated s \<longleftrightarrow> timers_match s \<and> handles_once s \<and> ids_fresh s"

text \<open>
  \<open>uuid\<close> draws identifiers at random. A run has fresh identifiers when every call in it
  draws an identifier that is, at that moment, neither pending nor queued.
\<close>

fun fresh_call :: "client \<Rightarrow> event \<Rightarrow> bool" where
  "fresh_call s (E_call rnd method ps) =
     (pending s (uuid rnd) = None
      \<and> uuid rnd \<notin> set (map (\<lambda>item. request_id (fst item)) (queue s)))"
| "fresh_call s e = True"

fun fresh_ids :: "client \<Rightarrow> event list \<Rightarrow> bool" where
  "fresh_ids s [] = True"
| "fresh_ids s (e # es) = (fresh_call s e \<and> fresh_ids (step s e) es)"

text \<open>The outcomes of a promise: the invocations of its \<open>resolve\<close> and \<open>reject\<close> so far.\<close>

definition outcomes :: "handle \<Rightarrow> client \<Rightarrow> outcome list" where
  "outcomes h s = map snd (filter (\<lambda>x. fst x = h) (settled s))"

definition demo_answer :: event where
  "demo_answer = E_message (\<lambda>_. False) (Json (demo_response None (uuid (\<lambda>_. 1))))"

section \<open>Properties\<close>

subsection \<open>Auxiliary facts\<close>

lemma resolve_connect_fields [simp]:
  "isConnected (resolve_connect k s) = isConnected s"
  "isConnecting (resolve_connect k s) = isConnecting s"
  "pending (resolve_connect k s) = pending s"
  "queue (resolve_connect k s) = queue s"
  "opts (resolve_connect k s) = opts s"
  "retryCount (resolve_connect k s) = retryCount s"
  "heartbeatTimer (resolve_connect k s) = heartbeatTimer s"
  "client_id (resolve_connect k s) = client_id s"
  "tableSubs (resolve_connect k s) = tableSubs s"
  "traceSubs (resolve_connect k s) = traceSubs s"
  "endpoint_ok (resolve_connect k s) = endpoint_ok s"
  "sockets (resolve_connect k s) = sockets s"
  "sent (resolve_connect k s) = sent s"
  "timers (resolve_connect k s) = timers s"
  "nextTimer (resolve_connect k s) = nextTimer s"
  "promises (resolve_connect k s) = promises s"
  "settled (resolve_connect k s) = settled s"
  "invoked (resolve_connect k s) = invoked s"
  "console (resolve_connect k s) = console s"
  "onUnhandled (resolve_connect k s) = onUnhandled s"
  by (simp_all add: resolve_connect_def)

lemma reject_connect_fields [simp]:
  "isConnected (reject_connect k s) = isConnected s"
  "isConnecting (reject_connect k s) = isConnecting s"
  "pending (reject_connect k s) = pending s"
  "queue (reject_connect k s) = queue s"
  "opts (reject_connect k s) = opts s"
  "retryCount (reject_connect k s) = retryCount s"
  "heartbeatTimer (reject_connect k s) = heartbeatTimer s"
  "client_id (reject_connect k s) = client_id s"
  "tableSubs (reject_connect k s) = tableSubs s"
  "traceSubs (reject_connect k s) = traceSubs s"
  "endpoint_ok (reject_connect k s) = endpoint_ok s"
  "sockets (reject_connect k s) = sockets s"
  "sent (reject_connect k s) = sent s"
  "timers (reject_connect k s) = timers s"
  "nextTimer (reject_connect k s) = nextTimer s"
  "promises (reject_connect k s) = promises s"
  "settled (reject_connect k s) = settled s"
  "invoked (reject_connect k s) = invoked s"
  "console (reject_connect k s) = console s"
  "onUnhandled (reject_connect k s) = onUnhandled s"
  by (simp_all add: reject_connect_def)

lemma forEach_cb_no_throw: "\<forall>c\<in>set cbs. \<not> thr c \<Longrightarrow> forEach_cb thr cbs = (cbs, False)"
  by (induction cbs) auto

lemma forEach_cb_throw:
  "\<forall>x\<in>set pre. \<not> thr x \<Longrightarrow> thr c \<Longrightarrow> forEach_cb thr (pre @ c # post) = (pre @ [c], True)"
  by (induction pre) auto

lemma handleMessage_table_delta:
  "m_type msg = Some ''table_delta'' \<Longrightarrow>
     handleMessage thr s (Json msg) =
       caught (s\<lparr>invoked := invoked s @ fst (forEach_cb thr (table_matches s msg))\<rparr>,
               snd (forEach_cb thr (table_matches s msg)))"
  by (simp add: handleMessage_def dispatchSubscription_def Let_def table_matches_def)

lemma handleMessage_action_trace:
  "m_type msg = Some ''action_trace'' \<Longrightarrow> trace_matches s msg \<noteq> [] \<Longrightarrow>
     handleMessage thr s (Json msg) =
       caught (s\<lparr>invoked := invoked s @ fst (forEach_cb thr (trace_matches s msg))\<rparr>,
               snd (forEach_cb thr (trace_matches s msg)))"
  by (auto simp: handleMessage_def dispatchSubscription_def trace_matches_def subs_get_def
      split: option.splits)

lemma handleMessage_action_trace_invoked:
  "m_type msg = Some ''action_trace'' \<Longrightarrow>
     invoked (handleMessage thr s (Json msg)) =
       invoked s @ fst (forEach_cb thr (trace_matches s msg))"
  by (auto simp: handleMessage_def dispatchSubscription_def trace_matches_def subs_get_def
      caught_def split: option.splits)

lemma run_Nil [simp]: "run s [] = s"
  by (simp add: run_def)

lemma run_Cons [simp]: "run s (e # es) = run (step s e) es"
  by (simp add: run_def)

lemma run_append [simp]: "run s (es @ fs) = run (run s es) fs"
  by (simp add: run_def)

lemma processQueue_disconnected: "\<not> isConnected s \<Longrightarrow> processQueue s = s"
  by (subst processQueue.simps) (simp split: list.split)

lemma processQueue_Nil: "queue s = [] \<Longrightarrow> processQueue s = s"
  by (subst processQueue.simps) simp

lemma processQueue_Cons:
  "queue s = item # rest \<Longrightarrow> isConnected s \<Longrightarrow>
     processQueue s = processQueue (sendToWs (s\<lparr>queue := rest\<rparr>) (fst item) (snd item))"
  by (subst processQueue.simps) simp

lemma sendToWs_fields [simp]:
  "queue (sendToWs s p h) = queue s"
  "isConnected (sendToWs s p h) = isConnected s"
  "sent (sendToWs s p h) = sent s @ [stringify p]"
  "nextTimer (sendToWs s p h) = Suc (nextTimer s)"
  by (simp_all add: sendToWs_def ws_send_def setTimer_def)

lemma processQueue_frame:
  "\<exists>q p t n se. processQueue s = s\<lparr>queue := q, pending := p, timers := t, nextTimer := n, sent := se\<rparr>"
proof (induction s rule: processQueue.induct)
  case (1 s)
  show ?case
  proof (cases "queue s")
    case Nil
    then have "processQueue s = s\<lparr>queue := queue s, pending := pending s, timers := timers s,
        nextTimer := nextTimer s, sent := sent s\<rparr>"
      by (simp add: processQueue_Nil)
    then show ?thesis by blast
  next
    case (Cons item rest)
    show ?thesis
    proof (cases "isConnected s")
      case False
      then have "processQueue s = s\<lparr>queue := queue s, pending := pending s, timers := timers s,
          nextTimer := nextTimer s, sent := sent s\<rparr>"
        by (simp add: processQueue_disconnected)
      then show ?thesis by blast
    next
      case True
      from "1.IH" [OF Cons True] obtain q p t n se where
        "processQueue (sendToWs (s\<lparr>queue := rest\<rparr>) (fst item) (snd item)) =
           (sendToWs (s\<lparr>queue := rest\<rparr>) (fst item) (snd item))
             \<lparr>queue := q, pending := p, timers := t, nextTimer := n, sent := se\<rparr>"
        by blast
      then have "processQueue s = s\<lparr>queue := q, pending := p, timers := t, nextTimer := n, sent := se\<rparr>"
        by (simp add: processQueue_Cons [OF Cons True] sendToWs_def ws_send_def setTimer_def)
      then show ?thesis by blast
    qed
  qed
qed

lemma processQueue_drains:
  "isConnected s \<Longrightarrow>
     sent (processQueue s) = sent s @ queue_frames s \<and> queue (processQueue s) = []
     \<and> nextTimer (processQueue s) = nextTimer s + length (queue s)"
proof (induction s rule: processQueue.induct)
  case (1 s)
  show ?case
  proof (cases "queue s")
    case Nil
    then show ?thesis by (simp add: processQueue_Nil queue_frames_def)
  next
    case (Cons item rest)
    with "1.IH" [OF Cons "1.prems"] "1.prems" show ?thesis
      by (simp add: processQueue_Cons [OF Cons "1.prems"] queue_frames_def)
  qed
qed


lemma stopHeartbeat_fields [simp]:
  "sent (stopHeartbeat s) = sent s"
  "queue (stopHeartbeat s) = queue s"
  "pending (stopHeartbeat s) = pending s"
  "settled (stopHeartbeat s) = settled s"
  "retryCount (stopHeartbeat s) = retryCount s"
  "isConnected (stopHeartbeat s) = isConnected s"
  "isConnecting (stopHeartbeat s) = isConnecting s"
  "nextTimer (stopHeartbeat s) = nextTimer s"
  "opts (stopHeartbeat s) = opts s"
  "sockets (stopHeartbeat s) = sockets s"
  "heartbeatTimer (stopHeartbeat s) = None"
  by (simp_all add: stopHeartbeat_def clearTimer_def split: option.splits)

lemma startHeartbeat_fields [simp]:
  "sent (startHeartbeat s) = sent s"
  "queue (startHeartbeat s) = queue s"
  "retryCount (startHeartbeat s) = retryCount s"
  "isConnected (startHeartbeat s) = isConnected s"
  "heartbeatTimer (startHeartbeat s) = Some (nextTimer s)"
  "timers (startHeartbeat s) (nextTimer s) = Some (HEARTBEAT_INTERVAL, T_heartbeat)"
  by (simp_all add: startHeartbeat_def setTimer_def)

lemma resubscribeAll_fields [simp]:
  "sent (resubscribeAll s) = sent s @ replay_frames s"
  "queue (resubscribeAll s) = queue s"
  "isConnected (resubscribeAll s) = isConnected s"
  "retryCount (resubscribeAll s) = retryCount s"
  "nextTimer (resubscribeAll s) = nextTimer s"
  by (simp_all add: resubscribeAll_def replay_frames_def)

lemma processQueue_keeps [simp]:
  "retryCount (processQueue s) = retryCount s"
  "isConnected (processQueue s) = isConnected s"
  "isConnecting (processQueue s) = isConnecting s"
  "tableSubs (processQueue s) = tableSubs s"
  "traceSubs (processQueue s) = traceSubs s"
  "client_id (processQueue s) = client_id s"
  "settled (processQueue s) = settled s"
  "promises (processQueue s) = promises s"
  "heartbeatTimer (processQueue s) = heartbeatTimer s"
  "opts (processQueue s) = opts s"
  "sockets (processQueue s) = sockets s"
  "exited (processQueue s) = exited s"
  "onUnhandled (processQueue s) = onUnhandled s"
  "connectPromises (processQueue s) = connectPromises s"
  using processQueue_frame [of s] by auto

lemma onopen_effect:
  "retryCount (onopen s k) = 0
   \<and> isConnected (onopen s k)
   \<and> sent (onopen s k) = sent s @ replay_frames s @ queue_frames s
   \<and> queue (onopen s k) = []
   \<and> heartbeatTimer (onopen s k) = Some (nextTimer s + length (queue s))
   \<and> timers (onopen s k) (nextTimer s + length (queue s)) = Some (HEARTBEAT_INTERVAL, T_heartbeat)"
proof -
  let ?b = "resubscribeAll (s\<lparr>isConnected := True, isConnecting := False, retryCount := 0\<rparr>)"
  have c: "isConnected ?b" by simp
  have n: "nextTimer (processQueue ?b) = nextTimer s + length (queue s)"
    using processQueue_drains [OF c] by simp
  have "sent (processQueue ?b) = sent s @ replay_frames s @ queue_frames s"
    using processQueue_drains [OF c] by (simp add: replay_frames_def queue_frames_def)
  moreover have "queue (processQueue ?b) = []"
    using processQueue_drains [OF c] by simp
  moreover have "heartbeatTimer (startHeartbeat (processQueue ?b)) = Some (nextTimer s + length (queue s))"
    by (simp add: n)
  moreover have "timers (startHeartbeat (processQueue ?b)) (nextTimer s + length (queue s)) =
      Some (HEARTBEAT_INTERVAL, T_heartbeat)"
    using startHeartbeat_fields(6) [of "processQueue ?b"] by (simp only: n)
  ultimately show ?thesis
    by (simp add: onopen_def)
qed

lemma attemptReconnect_fields [simp]:
  "pending (attemptReconnect s) = pending s"
  "queue (attemptReconnect s) = queue s"
  "settled (attemptReconnect s) = settled s"
  "isConnected (attemptReconnect s) = isConnected s"
  "isConnecting (attemptReconnect s) = isConnecting s"
  "sockets (attemptReconnect s) = sockets s"
  by (simp_all add: attemptReconnect_def setTimer_def)

lemma connect_fields [simp]:
  "isConnected (connect holder s) = isConnected s"
  "queue (connect holder s) = queue s"
  "sent (connect holder s) = sent s"
  "pending (connect holder s) = pending s"
  "client_id (connect holder s) = client_id s"
  "promises (connect holder s) = promises s"
  "settled (connect holder s) = settled s"
  "timers (connect holder s) = timers s"
  "nextTimer (connect holder s) = nextTimer s"
  "heartbeatTimer (connect holder s) = heartbeatTimer s"
  "retryCount (connect holder s) = retryCount s"
  "opts (connect holder s) = opts s"
  "tableSubs (connect holder s) = tableSubs s"
  "traceSubs (connect holder s) = traceSubs s"
  by (simp_all add: connect_def)

lemma call_offline:
  assumes "\<not> isConnected s"
  shows "\<not> isConnected (call s rnd method ps)"
    and "queue (call s rnd method ps) = queue s @ [(make_payload rnd method ps, promises s)]"
    and "sent (call s rnd method ps) = sent s"
    and "pending (call s rnd method ps) = pending s"
    and "replay_frames (call s rnd method ps) = replay_frames s"
  using assms by (simp_all add: call_def Let_def replay_frames_def)

lemma calls_offline:
  "\<not> isConnected s \<Longrightarrow>
     \<not> isConnected (run s (map call_event cs))
     \<and> map fst (queue (run s (map call_event cs))) = map fst (queue s) @ map call_payload cs
     \<and> sent (run s (map call_event cs)) = sent s
     \<and> pending (run s (map call_event cs)) = pending s
     \<and> replay_frames (run s (map call_event cs)) = replay_frames s"
proof (induction cs arbitrary: s)
  case Nil
  then show ?case by simp
next
  case (Cons c cs)
  let ?s = "call s (fst c) (fst (snd c)) (snd (snd c))"
  from Cons.IH [OF call_offline(1) [OF Cons.prems]] call_offline(2-5) [OF Cons.prems]
  show ?case
    by (simp add: call_event_def call_payload_def)
qed

lemma map_of_tableSubs_subscribeTable:
  "map_of (tableSubs (subscribeTable s code scope table c)) =
     (map_of (tableSubs s))
       (table_key code table (if scope = [] then ''*'' else scope) \<mapsto>
          subs_get (tableSubs s) (table_key code table (if scope = [] then ''*'' else scope)) @ [c])"
  by (auto simp: subscribeTable_def Let_def subs_get_def ws_send_def AList.update_conv'
        AList.map_of_map_entry fun_eq_iff split: option.splits)

lemma table_key_scope_inj [simp]: "table_key code table a = table_key code table b \<longleftrightarrow> a = b"
  by (simp add: table_key_def)

lemma demo_calling_pending: "pending demo_calling (uuid (\<lambda>_. 1)) = Some (0, 1)"
  by code_simp

lemma demo_calling_no_pending: "pending demo_calling (uuid (\<lambda>_. 2)) = None"
  by code_simp

lemma uuid_1_truthy: "uuid (\<lambda>_. 1) \<noteq> []"
  by code_simp

lemma update_absent: "map_of al k = None \<Longrightarrow> AList.update k v al = al @ [(k, v)]"
  by (induction al) (auto split: if_splits)

lemma map_fst_map_entry [simp]: "map fst (AList.map_entry k f al) = map fst al"
  by (induction al) auto

lemma subscribeTable_effect:
  "sent (subscribeTable s code scope table c) =
     sent s @ (if map_of (tableSubs s) (table_key code table (if scope = [] then ''*'' else scope)) = None
                 \<and> isConnected s
               then [Frame (Some (client_id s)) ''subscribe_table''
                       (Some (P_table (Str code) (Str table) (Str scope)))]
               else [])"
  "isConnected (subscribeTable s code scope table c) = isConnected s"
  "client_id (subscribeTable s code scope table c) = client_id s"
  "traceSubs (subscribeTable s code scope table c) = traceSubs s"
  "queue (subscribeTable s code scope table c) = queue s"
  "pending (subscribeTable s code scope table c) = pending s"
  by (simp_all add: subscribeTable_def Let_def ws_send_def)

lemma subscribeTable_keys:
  "map fst (tableSubs (subscribeTable s code scope table c)) =
     (if map_of (tableSubs s) (table_key code table (if scope = [] then ''*'' else scope)) = None
      then map fst (tableSubs s) @ [table_key code table (if scope = [] then ''*'' else scope)]
      else map fst (tableSubs s))"
  by (simp add: subscribeTable_def Let_def ws_send_def update_absent)

lemma unsubscribeTable_effect:
  assumes "map_of (tableSubs s) (table_key code table (if scope = [] then ''*'' else scope)) = Some cbs"
  shows "remove1 c cbs \<noteq> [] \<Longrightarrow>
           map_of (tableSubs (unsubscribeTable s code scope table c)) =
             (map_of (tableSubs s))
               (table_key code table (if scope = [] then ''*'' else scope) \<mapsto> remove1 c cbs)"
    and "remove1 c cbs \<noteq> [] \<Longrightarrow> sent (unsubscribeTable s code scope table c) = sent s"
    and "remove1 c cbs = [] \<Longrightarrow>
           map_of (tableSubs (unsubscribeTable s code scope table c)) =
             (map_of (tableSubs s))
               (table_key code table (if scope = [] then ''*'' else scope) := None)"
    and "remove1 c cbs = [] \<Longrightarrow>
           sent (unsubscribeTable s code scope table c) =
             sent s @ (if isConnected s
                       then [Frame (Some (client_id s)) ''unsubscribe_table''
                               (Some (P_table (Str code) (Str table) (Str scope)))]
                       else [])"
    and "isConnected (unsubscribeTable s code scope table c) = isConnected s"
    and "client_id (unsubscribeTable s code scope table c) = client_id s"
  using assms
  by (simp_all add: unsubscribeTable_def Let_def ws_send_def AList.update_conv' AList.delete_conv')


lemma subscribeTrace_effect:
  assumes "split_dcolon [] codeAction = code # action # rest" and "code \<noteq> []" and "action \<noteq> []"
  shows "sent (step s (E_subscribeTrace codeAction c)) =
           sent s @ (if map_of (traceSubs s) (trace_key code action) = None \<and> isConnected s
                     then [Frame (Some (client_id s)) ''subscribe_trace''
                             (Some (P_trace (Str code) (Str action)))]
                     else [])"
    and "isConnected (step s (E_subscribeTrace codeAction c)) = isConnected s"
    and "client_id (step s (E_subscribeTrace codeAction c)) = client_id s"
    and "tableSubs (step s (E_subscribeTrace codeAction c)) = tableSubs s"
    and "map_of (traceSubs (step s (E_subscribeTrace codeAction c))) =
           (map_of (traceSubs s))
             (trace_key code action \<mapsto> subs_get (traceSubs s) (trace_key code action) @ [c])"
  using assms
  by (auto simp: subscribeTrace_def Let_def ws_send_def subs_get_def
      AList.update_conv' AList.map_of_map_entry fun_eq_iff split: option.splits)

lemma subscribeTrace_keys:
  assumes "split_dcolon [] codeAction = code # action # rest" and "code \<noteq> []" and "action \<noteq> []"
  shows "map fst (traceSubs (step s (E_subscribeTrace codeAction c))) =
           (if map_of (traceSubs s) (trace_key code action) = None
            then map fst (traceSubs s) @ [trace_key code action]
            else map fst (traceSubs s))"
  using assms by (simp add: subscribeTrace_def Let_def ws_send_def update_absent)

lemma unsubscribeTrace_effect:
  assumes "map_of (traceSubs s) (trace_key code action) = Some cbs"
  shows "remove1 c cbs \<noteq> [] \<Longrightarrow>
           map_of (traceSubs (unsubscribeTrace s code action c)) =
             (map_of (traceSubs s))(trace_key code action \<mapsto> remove1 c cbs)"
    and "remove1 c cbs \<noteq> [] \<Longrightarrow> sent (unsubscribeTrace s code action c) = sent s"
    and "remove1 c cbs = [] \<Longrightarrow>
           map_of (traceSubs (unsubscribeTrace s code action c)) =
             (map_of (traceSubs s))(trace_key code action := None)"
    and "remove1 c cbs = [] \<Longrightarrow>
           sent (unsubscribeTrace s code action c) =
             sent s @ (if isConnected s
                       then [Frame (Some (client_id s)) ''unsubscribe_trace''
                               (Some (P_trace (Str code) (Str action)))]
                       else [])"
    and "isConnected (unsubscribeTrace s code action c) = isConnected s"
    and "client_id (unsubscribeTrace s code action c) = client_id s"
  using assms
  by (simp_all add: unsubscribeTrace_def Let_def ws_send_def AList.update_conv' AList.delete_conv')


lemma take_scenario:
  "take 2 (a # b # c # d # []) = [a, b]" "take 3 (a # b # c # d # []) = [a, b, c]"
  by (simp_all add: numeral_2_eq_2 numeral_3_eq_3)

lemma replay_frames_keys:
  "replay_frames s =
     map (resub_table_frame (client_id s)) (map fst (tableSubs s)) @
     map (resub_trace_frame (client_id s)) (map fst (traceSubs s))"
  by (simp add: replay_frames_def comp_def)

lemma table_refcount:
  assumes new: "map_of (tableSubs s) (table_topic code scope table) = None"
    and cc: "(c = c1 \<and> c' = c2) \<or> (c = c2 \<and> c' = c1)"
  shows "sent (run s (take 2 (table_scenario code scope table c1 c2 c c'))) =
           sent s @ (if isConnected s
                     then [Frame (Some (client_id s)) ''subscribe_table''
                             (Some (P_table (Str code) (Str table) (Str scope)))]
                     else [])
       \<and> map_of (tableSubs (run s (take 2 (table_scenario code scope table c1 c2 c c'))))
           (table_topic code scope table) = Some [c1, c2]
       \<and> map fst (tableSubs (run s (take 2 (table_scenario code scope table c1 c2 c c')))) =
           map fst (tableSubs s) @ [table_topic code scope table]
       \<and> replay_frames (run s (take 2 (table_scenario code scope table c1 c2 c c'))) =
           map (resub_table_frame (client_id s)) (map fst (tableSubs s)) @
           [resub_table_frame (client_id s) (table_topic code scope table)] @
           map (resub_trace_frame (client_id s)) (map fst (traceSubs s))
       \<and> map_of (tableSubs (run s (take 3 (table_scenario code scope table c1 c2 c c'))))
           (table_topic code scope table) = Some [c']
       \<and> sent (run s (take 3 (table_scenario code scope table c1 c2 c c'))) =
           sent (run s (take 2 (table_scenario code scope table c1 c2 c c')))
       \<and> map_of (tableSubs (run s (table_scenario code scope table c1 c2 c c')))
           (table_topic code scope table) = None
       \<and> sent (run s (table_scenario code scope table c1 c2 c c')) =
           sent (run s (take 3 (table_scenario code scope table c1 c2 c c'))) @
           (if isConnected s
            then [Frame (Some (client_id s)) ''unsubscribe_table''
                    (Some (P_table (Str code) (Str table) (Str scope)))]
            else [])"
proof -
  let ?k = "table_key code table (if scope = [] then ''*'' else scope)"
  let ?s1 = "subscribeTable s code scope table c1"
  let ?s2 = "subscribeTable ?s1 code scope table c2"
  let ?s3 = "unsubscribeTable ?s2 code scope table c"
  let ?s4 = "unsubscribeTable ?s3 code scope table c'"
  have new': "map_of (tableSubs s) ?k = None"
    using new by (simp add: table_topic_def)
  have m1: "map_of (tableSubs ?s1) ?k = Some [c1]"
    using new' by (simp add: map_of_tableSubs_subscribeTable subs_get_def)
  have m2: "map_of (tableSubs ?s2) ?k = Some [c1, c2]"
    using m1 by (simp add: map_of_tableSubs_subscribeTable subs_get_def)
  have r: "remove1 c [c1, c2] = [c']" using cc by auto
  then have ne: "remove1 c [c1, c2] \<noteq> []" by simp
  have m3: "map_of (tableSubs ?s3) ?k = Some [c']"
    using unsubscribeTable_effect(1) [OF m2 ne] r by simp
  have e3: "sent ?s3 = sent ?s2"
    using unsubscribeTable_effect(2) [OF m2 ne] .
  have r': "remove1 c' [c'] = []" by simp
  have m4: "map_of (tableSubs ?s4) ?k = None"
    using unsubscribeTable_effect(3) [OF m3 r'] by simp
  have c3: "isConnected ?s3 = isConnected s" "client_id ?s3 = client_id s"
    using unsubscribeTable_effect(5,6) [OF m2, of c] by (simp_all add: subscribeTable_effect)
  have e4: "sent ?s4 = sent ?s3 @ (if isConnected s
            then [Frame (Some (client_id s)) ''unsubscribe_table''
                    (Some (P_table (Str code) (Str table) (Str scope)))]
            else [])"
    using unsubscribeTable_effect(4) [OF m3 r'] c3 by simp
  have e2: "sent ?s2 = sent s @ (if isConnected s
                     then [Frame (Some (client_id s)) ''subscribe_table''
                             (Some (P_table (Str code) (Str table) (Str scope)))]
                     else [])"
    using new' m1 by (simp add: subscribeTable_effect)
  have k2: "map fst (tableSubs ?s2) = map fst (tableSubs s) @ [?k]"
    using new' m1 by (simp add: subscribeTable_keys)
  have rp: "replay_frames ?s2 =
      map (resub_table_frame (client_id s)) (map fst (tableSubs s)) @
      [resub_table_frame (client_id s) ?k] @
      map (resub_trace_frame (client_id s)) (map fst (traceSubs s))"
    unfolding replay_frames_keys k2 by (simp add: subscribeTable_effect)
  show ?thesis
    unfolding table_scenario_def take_scenario table_topic_def
    using e2 m2 k2 rp m3 e3 m4 e4 by simp
qed

lemma trace_refcount:
  assumes sp: "split_dcolon [] codeAction = code # action # rest" "code \<noteq> []" "action \<noteq> []"
    and new: "map_of (traceSubs s) (trace_key code action) = None"
    and cc: "(c = c1 \<and> c' = c2) \<or> (c = c2 \<and> c' = c1)"
  shows "sent (run s (take 2 (trace_scenario codeAction code action c1 c2 c c'))) =
           sent s @ (if isConnected s
                     then [Frame (Some (client_id s)) ''subscribe_trace''
                             (Some (P_trace (Str code) (Str action)))]
                     else [])
       \<and> map_of (traceSubs (run s (take 2 (trace_scenario codeAction code action c1 c2 c c'))))
           (trace_key code action) = Some [c1, c2]
       \<and> map fst (traceSubs (run s (take 2 (trace_scenario codeAction code action c1 c2 c c')))) =
           map fst (traceSubs s) @ [trace_key code action]
       \<and> replay_frames (run s (take 2 (trace_scenario codeAction code action c1 c2 c c'))) =
           map (resub_table_frame (client_id s)) (map fst (tableSubs s)) @
           map (resub_trace_frame (client_id s)) (map fst (traceSubs s)) @
           [resub_trace_frame (client_id s) (trace_key code action)]
       \<and> map_of (traceSubs (run s (take 3 (trace_scenario codeAction code action c1 c2 c c'))))
           (trace_key code action) = Some [c']
       \<and> sent (run s (take 3 (trace_scenario codeAction code action c1 c2 c c'))) =
           sent (run s (take 2 (trace_scenario codeAction code action c1 c2 c c')))
       \<and> map_of (traceSubs (run s (trace_scenario codeAction code action c1 c2 c c')))
           (trace_key code action) = None
       \<and> sent (run s (trace_scenario codeAction code action c1 c2 c c')) =
           sent (run s (take 3 (trace_scenario codeAction code action c1 c2 c c'))) @
           (if isConnected s
            then [Frame (Some (client_id s)) ''unsubscribe_trace''
                    (Some (P_trace (Str code) (Str action)))]
            else [])"
proof -
  let ?k = "trace_key code action"
  let ?s1 = "step s (E_subscribeTrace codeAction c1)"
  let ?s2 = "step ?s1 (E_subscribeTrace codeAction c2)"
  let ?s3 = "unsubscribeTrace ?s2 code action c"
  let ?s4 = "unsubscribeTrace ?s3 code action c'"
  note sub = subscribeTrace_effect [OF sp]
  note keys = subscribeTrace_keys [OF sp]
  have m1: "map_of (traceSubs ?s1) ?k = Some [c1]"
    using new sub(5) [of s c1] by (simp del: step.simps add: subs_get_def)
  have m2: "map_of (traceSubs ?s2) ?k = Some [c1, c2]"
    using m1 sub(5) [of ?s1 c2] by (simp del: step.simps add: subs_get_def)
  have r: "remove1 c [c1, c2] = [c']" using cc by auto
  then have ne: "remove1 c [c1, c2] \<noteq> []" by simp
  have m3: "map_of (traceSubs ?s3) ?k = Some [c']"
    using unsubscribeTrace_effect(1) [OF m2 ne] r by simp
  have e3: "sent ?s3 = sent ?s2"
    using unsubscribeTrace_effect(2) [OF m2 ne] .
  have r': "remove1 c' [c'] = []" by simp
  have m4: "map_of (traceSubs ?s4) ?k = None"
    using unsubscribeTrace_effect(3) [OF m3 r'] by simp
  have c3: "isConnected ?s3 = isConnected s" "client_id ?s3 = client_id s"
    using unsubscribeTrace_effect(5,6) [OF m2, of c] sub(2,3) [of ?s1 c2] sub(2,3) [of s c1]
    by (simp_all del: step.simps)
  have e4: "sent ?s4 = sent ?s3 @ (if isConnected s
            then [Frame (Some (client_id s)) ''unsubscribe_trace''
                    (Some (P_trace (Str code) (Str action)))]
            else [])"
    using unsubscribeTrace_effect(4) [OF m3 r'] c3 by (simp del: step.simps)
  have e1: "sent ?s1 = sent s @ (if isConnected s
                     then [Frame (Some (client_id s)) ''subscribe_trace''
                             (Some (P_trace (Str code) (Str action)))]
                     else [])"
    using new sub(1) [of s c1] by (simp del: step.simps)
  have e2: "sent ?s2 = sent ?s1"
    using m1 sub(1) [of ?s1 c2] by (simp del: step.simps)
  have k1: "map fst (traceSubs ?s1) = map fst (traceSubs s) @ [?k]"
    using new keys [of s c1] by (simp del: step.simps)
  have k2: "map fst (traceSubs ?s2) = map fst (traceSubs ?s1)"
    using m1 keys [of ?s1 c2] by (simp del: step.simps)
  have k12: "map fst (traceSubs ?s2) = map fst (traceSubs s) @ [?k]"
    using k1 k2 by simp
  have i2: "client_id ?s2 = client_id s" "tableSubs ?s2 = tableSubs s"
    using sub(3,4) [of ?s1 c2] sub(3,4) [of s c1] by (simp_all del: step.simps)
  have rp: "replay_frames ?s2 =
      map (resub_table_frame (client_id s)) (map fst (tableSubs s)) @
      map (resub_trace_frame (client_id s)) (map fst (traceSubs s)) @
      [resub_trace_frame (client_id s) ?k]"
    unfolding replay_frames_keys k12 i2 by simp
  show ?thesis
    unfolding trace_scenario_def take_scenario run_Cons run_Nil step.simps(11)
    using e1 e2 m2 k1 k2 rp m3 e3 m4 e4 by (simp del: step.simps)
qed

lemma control_inv_sendToWs:
  "control_inv cid s \<Longrightarrow> request_id p \<noteq> cid \<Longrightarrow> rtype p \<notin> set control_types \<Longrightarrow>
     control_inv cid (sendToWs s p h)"
  by (auto simp: control_inv_def sendToWs_def ws_send_def setTimer_def stringify_def is_control_def)

lemma control_inv_processQueue: "control_inv cid s \<Longrightarrow> control_inv cid (processQueue s)"
proof (induction s rule: processQueue.induct)
  case (1 s)
  show ?case
  proof (cases "queue s")
    case Nil
    then show ?thesis using "1.prems" by (simp add: processQueue_Nil)
  next
    case (Cons item rest)
    show ?thesis
    proof (cases "isConnected s")
      case False
      then show ?thesis using "1.prems" by (simp add: processQueue_disconnected)
    next
      case True
      have "control_inv cid (s\<lparr>queue := rest\<rparr>)"
        using "1.prems" Cons by (simp add: control_inv_def)
      moreover have "request_id (fst item) \<noteq> cid" "rtype (fst item) \<notin> set control_types"
        using "1.prems" Cons by (simp_all add: control_inv_def)
      ultimately have "control_inv cid (sendToWs (s\<lparr>queue := rest\<rparr>) (fst item) (snd item))"
        by (rule control_inv_sendToWs)
      from "1.IH" [OF Cons True this] show ?thesis
        by (simp add: processQueue_Cons [OF Cons True])
    qed
  qed
qed

lemma control_inv_frame:
  "control_inv cid s \<Longrightarrow> client_id s' = client_id s \<Longrightarrow> pending s' = pending s \<Longrightarrow>
     queue s' = queue s \<Longrightarrow> sent s' = sent s \<Longrightarrow> control_inv cid s'"
  by (simp add: control_inv_def)

lemma control_inv_connect: "control_inv cid s \<Longrightarrow> control_inv cid (connect holder s)"
  by (erule control_inv_frame) simp_all

lemma is_control_resub [simp]:
  "f_request_id (resub_table_frame cid k) = Some cid"
  "f_request_id (resub_trace_frame cid k) = Some cid"
  by (simp_all add: resub_table_frame_def resub_trace_frame_def)

lemma control_inv_onopen: "control_inv cid s \<Longrightarrow> control_inv cid (onopen s k)"
proof -
  assume a: "control_inv cid s"
  have "control_inv cid (resubscribeAll (s\<lparr>isConnected := True, isConnecting := False, retryCount := 0\<rparr>))"
    using a by (auto simp: control_inv_def resubscribeAll_def)
  then have "control_inv cid (processQueue (resubscribeAll
      (s\<lparr>isConnected := True, isConnecting := False, retryCount := 0\<rparr>)))"
    by (rule control_inv_processQueue)
  then show ?thesis
    unfolding onopen_def
    by (rule control_inv_frame) (simp_all add: startHeartbeat_def setTimer_def stopHeartbeat_def
        clearTimer_def split: option.splits)
qed

lemma control_inv_onclose: "control_inv cid s \<Longrightarrow> control_inv cid (onclose s)"
  by (erule control_inv_frame)
    (simp_all add: onclose_def Let_def attemptReconnect_def setTimer_def stopHeartbeat_def
      clearTimer_def split: option.splits)

lemma control_inv_onerror: "control_inv cid s \<Longrightarrow> control_inv cid (onerror s k)"
  by (erule control_inv_frame) (simp_all add: onerror_def)

lemma control_inv_handleMessage: "control_inv cid s \<Longrightarrow> control_inv cid (handleMessage thr s raw)"
  by (auto simp: control_inv_def handleMessage_def dispatchSubscription_def caught_def Let_def
      clearTimer_def split: raw_data.splits option.splits prod.splits)

lemma control_inv_fire_timer: "control_inv cid s \<Longrightarrow> control_inv cid (fire_timer s t)"
  by (auto simp: control_inv_def fire_timer_def clearTimer_def ws_send_def is_control_def
      control_types_def connect_def split: option.splits prod.splits timer_action.splits)

lemma control_inv_call:
  "control_inv cid s \<Longrightarrow> foreign_call cid (E_call rnd method ps) \<Longrightarrow>
     control_inv cid (call s rnd method ps)"
proof (cases "isConnected s")
  case True
  assume a: "control_inv cid s" and f: "foreign_call cid (E_call rnd method ps)"
  have "control_inv cid (s\<lparr>promises := Suc (promises s)\<rparr>)"
    using a by (simp add: control_inv_def)
  then have "control_inv cid (sendToWs (s\<lparr>promises := Suc (promises s)\<rparr>)
      (make_payload rnd method ps) (promises s))"
    using f by (intro control_inv_sendToWs) (simp_all add: make_payload_def)
  then show ?thesis using True by (simp add: call_def)
next
  case False
  assume a: "control_inv cid s" and f: "foreign_call cid (E_call rnd method ps)"
  then show ?thesis using False
    by (auto simp: call_def Let_def control_inv_def make_payload_def)
qed

lemma control_inv_subscribeTable: "control_inv cid s \<Longrightarrow> control_inv cid (subscribeTable s code scope table c)"
  by (auto simp: control_inv_def subscribeTable_def Let_def ws_send_def)

lemma control_inv_unsubscribeTable: "control_inv cid s \<Longrightarrow> control_inv cid (unsubscribeTable s code scope table c)"
  by (auto simp: control_inv_def unsubscribeTable_def Let_def ws_send_def split: option.splits)

lemma control_inv_subscribeTrace:
  "control_inv cid s \<Longrightarrow> control_inv cid (step s (E_subscribeTrace codeAction c))"
  by (auto simp: control_inv_def subscribeTrace_def Let_def ws_send_def)

lemma control_inv_unsubscribeTrace: "control_inv cid s \<Longrightarrow> control_inv cid (unsubscribeTrace s code action c)"
  by (auto simp: control_inv_def unsubscribeTrace_def Let_def ws_send_def split: option.splits)

lemma control_inv_step:
  "control_inv cid s \<Longrightarrow> foreign_call cid e \<Longrightarrow> control_inv cid (step s e)"
proof (cases e)
  case (E_subscribeTrace codeAction c)
  assume "control_inv cid s"
  then show ?thesis unfolding E_subscribeTrace by (rule control_inv_subscribeTrace)
qed (simp_all add: control_inv_connect control_inv_onopen control_inv_onclose control_inv_onerror
    control_inv_handleMessage control_inv_fire_timer control_inv_call control_inv_subscribeTable
    control_inv_unsubscribeTable control_inv_unsubscribeTrace)

lemma control_inv_run:
  "control_inv cid s \<Longrightarrow> list_all (foreign_call cid) evs \<Longrightarrow> control_inv cid (run s evs)"
  by (induction evs arbitrary: s) (simp_all add: control_inv_step del: step.simps)

lemma control_inv_new_client: "control_inv (uuid rnd) (new_client mode ok ro rnd)"
  by (simp add: control_inv_def new_client_def fresh_client_def connect_def)


lemma replay_frames_control:
  "f \<in> set (replay_frames s) \<Longrightarrow> is_control f \<and> f_request_id f = Some (client_id s)"
  by (auto simp: replay_frames_def is_control_def control_types_def resub_table_frame_def
      resub_trace_frame_def)

lemma subscription_event_frames:
  "subscription_event e \<Longrightarrow>
     \<exists>fs. sent (step s e) = sent s @ fs
        \<and> (\<forall>f\<in>set fs. is_control f \<and> f_request_id f = Some (client_id s))"
  by (cases e)
    (auto simp: subscribeTable_def unsubscribeTable_def subscribeTrace_def unsubscribeTrace_def
      Let_def ws_send_def is_control_def control_types_def split: option.splits)

lemma pending_handles_upd_new:
  "pending s rid = None \<Longrightarrow>
     pending_handles (s\<lparr>pending := (pending s)(rid \<mapsto> (h, t))\<rparr>) = insert h (pending_handles s)"
  by (auto simp: pending_handles_def) (metis option.discI)

lemma pending_handles_del:
  "pending s rid = Some (h, t) \<Longrightarrow>
     \<forall>rid' t'. pending s rid' = Some (h, t') \<longrightarrow> rid' = rid \<Longrightarrow>
     pending_handles (s\<lparr>pending := (pending s)(rid := None)\<rparr>) = pending_handles s - {h}"
  by (auto simp: pending_handles_def) (metis option.inject prod.inject)

lemma pending_handles_cong:
  "pending s' = pending s \<Longrightarrow> pending_handles s' = pending_handles s"
  by (simp add: pending_handles_def)

lemma sendToWs_more_fields [simp]:
  "settled (sendToWs s p h) = settled s"
  "promises (sendToWs s p h) = promises s"
  "heartbeatTimer (sendToWs s p h) = heartbeatTimer s"
  "pending (sendToWs s p h) = (pending s)(request_id p \<mapsto> (h, nextTimer s))"
  "timers (sendToWs s p h) =
     (timers s)(nextTimer s \<mapsto> (requestTimeOut (opts s), T_timeout (request_id p) h))"
  by (simp_all add: sendToWs_def ws_send_def setTimer_def)

lemma timers_matchD:
  assumes "timers_match s"
  shows "pending s rid = Some (h, t) \<Longrightarrow> \<exists>d. timers s t = Some (d, T_timeout rid h)"
    and "timers s t = Some (d, T_timeout rid h) \<Longrightarrow> pending s rid = Some (h, t)"
    and "timers s t = Some x \<Longrightarrow> t < nextTimer s"
    and "heartbeatTimer s = Some t \<Longrightarrow> t < nextTimer s"
    and "heartbeatTimer s = Some t \<Longrightarrow> timers s t \<noteq> Some (d, T_timeout rid h)"
  using assms unfolding timers_match_def by auto

lemma timers_match_sendToWs:
  assumes "timers_match s" and "pending s (request_id p) = None"
  shows "timers_match (sendToWs s p h)"
proof -
  note D = timers_matchD [OF assms(1)]
  have fresh: "timers s (nextTimer s) = None"
    using D(3) [of "nextTimer s"] by (cases "timers s (nextTimer s)") auto
  have 1: "\<exists>d. timers (sendToWs s p h) t = Some (d, T_timeout rid h')"
    if "pending (sendToWs s p h) rid = Some (h', t)" for rid h' t
  proof (cases "rid = request_id p")
    case True
    with that show ?thesis by simp
  next
    case False
    with that have "pending s rid = Some (h', t)" by simp
    from D(1) [OF this] obtain d where d: "timers s t = Some (d, T_timeout rid h')" by blast
    with fresh have "t \<noteq> nextTimer s" by auto
    with d show ?thesis by simp
  qed
  have 2: "pending (sendToWs s p h) rid = Some (h', t)"
    if "timers (sendToWs s p h) t = Some (d, T_timeout rid h')" for rid h' t d
  proof (cases "t = nextTimer s")
    case True
    with that show ?thesis by simp
  next
    case False
    with that have "timers s t = Some (d, T_timeout rid h')" by simp
    from D(2) [OF this] have "pending s rid = Some (h', t)" .
    with assms(2) show ?thesis by auto
  qed
  have 3: "t < nextTimer (sendToWs s p h)" if "timers (sendToWs s p h) t \<noteq> None" for t
    using that D(3) [of t] by (auto split: if_splits simp: less_Suc_eq)
  have 4: "t < nextTimer (sendToWs s p h) \<and> (\<forall>d rid h'. timers (sendToWs s p h) t \<noteq> Some (d, T_timeout rid h'))"
    if "heartbeatTimer (sendToWs s p h) = Some t" for t
    using that D(4) [of t] D(5) [of t] by (auto simp: less_Suc_eq)
  show ?thesis
    unfolding timers_match_def using 1 2 3 4 by blast
qed

lemma timers_match_cong:
  "timers_match s \<Longrightarrow> pending s' = pending s \<Longrightarrow> timers s' = timers s \<Longrightarrow>
     nextTimer s' = nextTimer s \<Longrightarrow> heartbeatTimer s' = heartbeatTimer s \<Longrightarrow> timers_match s'"
  by (simp add: timers_match_def)

lemma handles_once_cong:
  "handles_once s \<Longrightarrow> pending s' = pending s \<Longrightarrow> settled s' = settled s \<Longrightarrow>
     queue s' = queue s \<Longrightarrow> promises s' = promises s \<Longrightarrow> handles_once s'"
  by (simp add: handles_once_def settled_handles_def queued_handles_def pending_handles_def)

lemma ids_fresh_cong:
  "ids_fresh s \<Longrightarrow> pending s' = pending s \<Longrightarrow> queue s' = queue s \<Longrightarrow> ids_fresh s'"
  by (simp add: ids_fresh_def)

lemma correlated_cong:
  "correlated s \<Longrightarrow> pending s' = pending s \<Longrightarrow> timers s' = timers s \<Longrightarrow>
     nextTimer s' = nextTimer s \<Longrightarrow> heartbeatTimer s' = heartbeatTimer s \<Longrightarrow>
     settled s' = settled s \<Longrightarrow> queue s' = queue s \<Longrightarrow> promises s' = promises s \<Longrightarrow>
     correlated s'"
  unfolding correlated_def
  by (blast intro: timers_match_cong handles_once_cong ids_fresh_cong)

lemma handle_inj_upd:
  assumes "handle_inj m" and "\<forall>rid t. m rid \<noteq> Some (h0, t)"
  shows "handle_inj (m(r0 \<mapsto> (h0, n)))"
  unfolding handle_inj_def
proof (intro allI impI)
  fix rid rid' h t t'
  assume a: "(m(r0 \<mapsto> (h0, n))) rid = Some (h, t)" and b: "(m(r0 \<mapsto> (h0, n))) rid' = Some (h, t')"
  show "rid = rid'"
  proof (cases "rid = r0")
    case True
    with a have h: "h = h0" by simp
    show ?thesis
    proof (cases "rid' = r0")
      case True
      with \<open>rid = r0\<close> show ?thesis by simp
    next
      case False
      with b h have "m rid' = Some (h0, t')" by simp
      with assms(2) show ?thesis by blast
    qed
  next
    case False
    with a have a': "m rid = Some (h, t)" by simp
    show ?thesis
    proof (cases "rid' = r0")
      case True
      with b have "h = h0" by simp
      with a' assms(2) show ?thesis by blast
    next
      case False
      with b have "m rid' = Some (h, t')" by simp
      with a' assms(1) show ?thesis unfolding handle_inj_def by blast
    qed
  qed
qed

lemma handle_inj_del: "handle_inj m \<Longrightarrow> handle_inj (m(r0 := None))"
  unfolding handle_inj_def by (auto split: if_splits)

lemma not_pending_handle: "h \<notin> pending_handles s \<Longrightarrow> \<forall>rid t. pending s rid \<noteq> Some (h, t)"
  by (auto simp: pending_handles_def)

lemma handles_onceD:
  assumes "handles_once s"
  shows "distinct (map fst (settled s))" and "distinct (map snd (queue s))"
    and "settled_handles s \<inter> queued_handles s = {}"
    and "settled_handles s \<inter> pending_handles s = {}"
    and "queued_handles s \<inter> pending_handles s = {}"
    and "handle_inj (pending s)"
    and "settled_handles s \<union> queued_handles s \<union> pending_handles s = {h. h < promises s}"
  using assms unfolding handles_once_def by blast+

lemma handles_onceI:
  assumes "distinct (map fst (settled s))" and "distinct (map snd (queue s))"
    and "settled_handles s \<inter> queued_handles s = {}"
    and "settled_handles s \<inter> pending_handles s = {}"
    and "queued_handles s \<inter> pending_handles s = {}"
    and "handle_inj (pending s)"
    and "settled_handles s \<union> queued_handles s \<union> pending_handles s = {h. h < promises s}"
  shows "handles_once s"
  using assms unfolding handles_once_def by blast

lemma handles_once_call_connected:
  assumes "handles_once s" and "pending s (request_id p) = None"
  shows "handles_once (sendToWs (s\<lparr>promises := Suc (promises s)\<rparr>) p (promises s))"
proof -
  let ?s' = "sendToWs (s\<lparr>promises := Suc (promises s)\<rparr>) p (promises s)"
  note D = handles_onceD [OF assms(1)]
  have ph: "pending_handles ?s' = insert (promises s) (pending_handles s)"
    using assms(2) by (auto simp: pending_handles_def) (metis option.discI)
  have sh: "settled_handles ?s' = settled_handles s" and qh: "queued_handles ?s' = queued_handles s"
    by (simp_all add: settled_handles_def queued_handles_def)
  have new: "promises s \<notin> settled_handles s" "promises s \<notin> queued_handles s"
    "promises s \<notin> pending_handles s"
    using D(7) by auto
  have inj: "handle_inj (pending ?s')"
    using handle_inj_upd [OF D(6) not_pending_handle [OF new(3)]] by simp
  have un: "settled_handles ?s' \<union> queued_handles ?s' \<union> pending_handles ?s' = {h. h < promises ?s'}"
    unfolding ph sh qh using D(7) by (auto simp: less_Suc_eq)
  show ?thesis
  proof (rule handles_onceI)
    show "distinct (map fst (settled ?s'))" using D(1) by simp
    show "distinct (map snd (queue ?s'))" using D(2) by simp
    show "settled_handles ?s' \<inter> queued_handles ?s' = {}" unfolding sh qh by (rule D(3))
    show "settled_handles ?s' \<inter> pending_handles ?s' = {}" unfolding sh ph using D(4) new(1) by auto
    show "queued_handles ?s' \<inter> pending_handles ?s' = {}" unfolding qh ph using D(5) new(2) by auto
    show "handle_inj (pending ?s')" by (rule inj)
    show "settled_handles ?s' \<union> queued_handles ?s' \<union> pending_handles ?s' = {h. h < promises ?s'}"
      by (rule un)
  qed
qed

lemma handles_once_dequeue:
  assumes "handles_once s" and "ids_fresh s" and "queue s = item # rest"
  shows "handles_once (sendToWs (s\<lparr>queue := rest\<rparr>) (fst item) (snd item))"
proof -
  let ?s' = "sendToWs (s\<lparr>queue := rest\<rparr>) (fst item) (snd item)"
  note D = handles_onceD [OF assms(1)]
  have none: "pending s (request_id (fst item)) = None"
    using assms(2,3) by (simp add: ids_fresh_def)
  have ph: "pending_handles ?s' = insert (snd item) (pending_handles s)"
    using none by (auto simp: pending_handles_def) (metis option.discI)
  have sh: "settled_handles ?s' = settled_handles s"
    by (simp add: settled_handles_def)
  have qh: "queued_handles ?s' = queued_handles s - {snd item}"
    and qin: "snd item \<in> queued_handles s"
    using D(2) assms(3) by (auto simp: queued_handles_def)
  have notp: "snd item \<notin> pending_handles s" and nots: "snd item \<notin> settled_handles s"
    using D(3,5) qin by auto
  have inj: "handle_inj (pending ?s')"
    using handle_inj_upd [OF D(6) not_pending_handle [OF notp]] by simp
  have un: "settled_handles ?s' \<union> queued_handles ?s' \<union> pending_handles ?s' = {h. h < promises ?s'}"
    unfolding ph sh qh using D(7) qin by auto
  show ?thesis
  proof (rule handles_onceI)
    show "distinct (map fst (settled ?s'))" using D(1) by simp
    show "distinct (map snd (queue ?s'))" using D(2) assms(3) by simp
    show "settled_handles ?s' \<inter> queued_handles ?s' = {}" unfolding sh qh using D(3) by auto
    show "settled_handles ?s' \<inter> pending_handles ?s' = {}" unfolding sh ph using D(4) nots by auto
    show "queued_handles ?s' \<inter> pending_handles ?s' = {}" unfolding qh ph using D(5) by auto
    show "handle_inj (pending ?s')" by (rule inj)
    show "settled_handles ?s' \<union> queued_handles ?s' \<union> pending_handles ?s' = {h. h < promises ?s'}"
      by (rule un)
  qed
qed

lemma ids_fresh_call_connected:
  assumes "ids_fresh s" and "request_id p \<notin> set (map (\<lambda>item. request_id (fst item)) (queue s))"
  shows "ids_fresh (sendToWs (s\<lparr>promises := Suc (promises s)\<rparr>) p (promises s))"
  using assms by (force simp: ids_fresh_def)

lemma ids_fresh_dequeue:
  assumes "ids_fresh s" and "queue s = item # rest"
  shows "ids_fresh (sendToWs (s\<lparr>queue := rest\<rparr>) (fst item) (snd item))"
proof -
  from assms have d: "request_id (fst item) \<notin> (\<lambda>item. request_id (fst item)) ` set rest"
    and d': "distinct (map (\<lambda>item. request_id (fst item)) rest)"
    and n: "\<forall>x\<in>set rest. pending s (request_id (fst x)) = None"
    by (simp_all add: ids_fresh_def)
  have "\<forall>x\<in>set rest. request_id (fst x) \<noteq> request_id (fst item)"
    using d by (metis image_eqI)
  then show ?thesis
    using d' n by (simp add: ids_fresh_def)
qed

lemma timers_match_settle:
  assumes "timers_match s" and "pending s rid = Some (h, t)"
  shows "timers_match (s\<lparr>timers := (timers s)(t := None), pending := (pending s)(rid := None),
           settled := st\<rparr>)"
proof -
  let ?s' = "s\<lparr>timers := (timers s)(t := None), pending := (pending s)(rid := None), settled := st\<rparr>"
  note D = timers_matchD [OF assms(1)]
  from D(1) [OF assms(2)] obtain d0 where t0: "timers s t = Some (d0, T_timeout rid h)" by blast
  have 1: "\<exists>d. timers ?s' t' = Some (d, T_timeout r h')" if "pending ?s' r = Some (h', t')" for r h' t'
  proof -
    from that have r: "r \<noteq> rid" and p: "pending s r = Some (h', t')" by (auto split: if_splits)
    from D(1) [OF p] obtain d where d: "timers s t' = Some (d, T_timeout r h')" by blast
    with t0 r have "t' \<noteq> t" by auto
    with d show ?thesis by simp
  qed
  have 2: "pending ?s' r = Some (h', t')" if "timers ?s' t' = Some (d, T_timeout r h')" for r h' t' d
  proof -
    from that have n: "t' \<noteq> t" and ti: "timers s t' = Some (d, T_timeout r h')"
      by (auto split: if_splits)
    from D(2) [OF ti] have p: "pending s r = Some (h', t')" .
    with assms(2) n have "r \<noteq> rid" by auto
    with p show ?thesis by simp
  qed
  have 3: "t' < nextTimer ?s'" if "timers ?s' t' \<noteq> None" for t'
    using that D(3) [of t'] by (auto split: if_splits)
  have 4: "t' < nextTimer ?s' \<and> (\<forall>d r h'. timers ?s' t' \<noteq> Some (d, T_timeout r h'))"
    if "heartbeatTimer ?s' = Some t'" for t'
    using that D(4) [of t'] D(5) [of t'] by auto
  show ?thesis
    unfolding timers_match_def using 1 2 3 4 by blast
qed

lemma handles_once_settle:
  assumes "handles_once s" and "pending s rid = Some (h, t)"
  shows "handles_once (s\<lparr>timers := tm, pending := (pending s)(rid := None),
           settled := settled s @ [(h, out)]\<rparr>)"
proof -
  let ?s' = "s\<lparr>timers := tm, pending := (pending s)(rid := None), settled := settled s @ [(h, out)]\<rparr>"
  note D = handles_onceD [OF assms(1)]
  have hin: "h \<in> pending_handles s"
    using assms(2) by (auto simp: pending_handles_def)
  have only: "\<forall>rid' t'. pending s rid' = Some (h, t') \<longrightarrow> rid' = rid"
    using D(6) assms(2) unfolding handle_inj_def by blast
  have ph: "pending_handles ?s' = pending_handles s - {h}"
    using assms(2) only by (auto simp: pending_handles_def) (metis option.inject prod.inject)
  have sh: "settled_handles ?s' = insert h (settled_handles s)"
    by (auto simp: settled_handles_def)
  have qh: "queued_handles ?s' = queued_handles s"
    by (simp add: queued_handles_def)
  have nots: "h \<notin> settled_handles s" and notq: "h \<notin> queued_handles s"
    using D(4,5) hin by auto
  show ?thesis
  proof (rule handles_onceI)
    show "distinct (map fst (settled ?s'))"
      using D(1) nots by (simp add: settled_handles_def)
    show "distinct (map snd (queue ?s'))" using D(2) by simp
    show "settled_handles ?s' \<inter> queued_handles ?s' = {}" unfolding sh qh using D(3) notq by auto
    show "settled_handles ?s' \<inter> pending_handles ?s' = {}" unfolding sh ph using D(4) by auto
    show "queued_handles ?s' \<inter> pending_handles ?s' = {}" unfolding qh ph using D(5) by auto
    show "handle_inj (pending ?s')" using handle_inj_del [OF D(6)] by simp
    show "settled_handles ?s' \<union> queued_handles ?s' \<union> pending_handles ?s' = {h. h < promises ?s'}"
      unfolding sh qh ph using D(7) hin by auto
  qed
qed

lemma ids_fresh_settle:
  "ids_fresh s \<Longrightarrow>
     ids_fresh (s\<lparr>timers := tm, pending := (pending s)(rid := None), settled := st\<rparr>)"
  by (simp add: ids_fresh_def)

lemma correlated_settle:
  assumes "correlated s" and "pending s rid = Some (h, t)"
  shows "correlated (s\<lparr>timers := (timers s)(t := None), pending := (pending s)(rid := None),
           settled := settled s @ [(h, out)]\<rparr>)"
  using assms timers_match_settle [of s rid h t] handles_once_settle [of s rid h t]
    ids_fresh_settle [of s]
  unfolding correlated_def by blast

lemma timers_match_clear_other:
  assumes "timers_match s" and "\<forall>d rid h. timers s t \<noteq> Some (d, T_timeout rid h)"
  shows "timers_match (s\<lparr>timers := (timers s)(t := None)\<rparr>)"
proof -
  let ?s' = "s\<lparr>timers := (timers s)(t := None)\<rparr>"
  note D = timers_matchD [OF assms(1)]
  have 1: "\<exists>d. timers ?s' t' = Some (d, T_timeout r h')" if "pending ?s' r = Some (h', t')" for r h' t'
  proof -
    from that have p: "pending s r = Some (h', t')" by simp
    from D(1) [OF p] obtain d where d: "timers s t' = Some (d, T_timeout r h')" by blast
    with assms(2) have "t' \<noteq> t" by auto
    with d show ?thesis by simp
  qed
  have 2: "pending ?s' r = Some (h', t')" if "timers ?s' t' = Some (d, T_timeout r h')" for r h' t' d
    using that D(2) [of t' d r h'] by (auto split: if_splits)
  have 3: "t' < nextTimer ?s'" if "timers ?s' t' \<noteq> None" for t'
    using that D(3) [of t'] by (auto split: if_splits)
  have 4: "t' < nextTimer ?s' \<and> (\<forall>d r h'. timers ?s' t' \<noteq> Some (d, T_timeout r h'))"
    if "heartbeatTimer ?s' = Some t'" for t'
    using that D(4) [of t'] D(5) [of t'] by auto
  show ?thesis
    unfolding timers_match_def using 1 2 3 4 by blast
qed

lemma timers_match_set_other:
  assumes "timers_match s" and "\<forall>rid h. a \<noteq> T_timeout rid h"
  shows "timers_match (setTimer d a s)"
proof -
  let ?s' = "setTimer d a s"
  note D = timers_matchD [OF assms(1)]
  have fresh: "timers s (nextTimer s) = None"
    using D(3) [of "nextTimer s"] by (cases "timers s (nextTimer s)") auto
  have f: "timers ?s' = (timers s)(nextTimer s \<mapsto> (d, a))" "pending ?s' = pending s"
    "nextTimer ?s' = Suc (nextTimer s)" "heartbeatTimer ?s' = heartbeatTimer s"
    by (simp_all add: setTimer_def)
  have 1: "\<exists>d. timers ?s' t' = Some (d, T_timeout r h')" if "pending ?s' r = Some (h', t')" for r h' t'
  proof -
    from that have p: "pending s r = Some (h', t')" by (simp add: f)
    from D(1) [OF p] obtain d' where d: "timers s t' = Some (d', T_timeout r h')" by blast
    with fresh have "t' \<noteq> nextTimer s" by auto
    with d show ?thesis by (simp add: f)
  qed
  have 2: "pending ?s' r = Some (h', t')" if "timers ?s' t' = Some (d', T_timeout r h')" for r h' t' d'
    using that D(2) [of t' d' r h'] assms(2) by (auto simp: f split: if_splits)
  have 3: "t' < nextTimer ?s'" if "timers ?s' t' \<noteq> None" for t'
    using that D(3) [of t'] by (auto simp: f less_Suc_eq split: if_splits)
  have 4: "t' < nextTimer ?s' \<and> (\<forall>d r h'. timers ?s' t' \<noteq> Some (d, T_timeout r h'))"
    if "heartbeatTimer ?s' = Some t'" for t'
    using that D(4) [of t'] D(5) [of t'] assms(2) by (auto simp: f less_Suc_eq)
  show ?thesis
    unfolding timers_match_def using 1 2 3 4 by blast
qed

lemma timers_match_stopHeartbeat:
  assumes "timers_match s"
  shows "timers_match (stopHeartbeat s)"
proof (cases "heartbeatTimer s")
  case None
  then show ?thesis using assms by (simp add: stopHeartbeat_def)
next
  case (Some t)
  from timers_matchD(5) [OF assms Some]
  have "timers_match (s\<lparr>timers := (timers s)(t := None)\<rparr>)"
    by (intro timers_match_clear_other [OF assms]) blast
  then have "timers_match ((s\<lparr>timers := (timers s)(t := None)\<rparr>)\<lparr>heartbeatTimer := None\<rparr>)"
    by (simp add: timers_match_def)
  then show ?thesis using Some by (simp add: stopHeartbeat_def clearTimer_def)
qed

lemma timers_match_startHeartbeat:
  assumes "timers_match s"
  shows "timers_match (startHeartbeat s)"
proof -
  have "timers_match (setTimer HEARTBEAT_INTERVAL T_heartbeat (stopHeartbeat s))"
    by (intro timers_match_set_other timers_match_stopHeartbeat assms) simp
  then show ?thesis
    unfolding startHeartbeat_def
    by (auto simp: timers_match_def setTimer_def)
qed

lemma correlated_dequeue:
  assumes "correlated s" and "queue s = item # rest"
  shows "correlated (sendToWs (s\<lparr>queue := rest\<rparr>) (fst item) (snd item))"
proof -
  have c: "timers_match s" "handles_once s" "ids_fresh s"
    using assms(1) by (simp_all add: correlated_def)
  have none: "pending s (request_id (fst item)) = None"
    using c(3) assms(2) by (simp add: ids_fresh_def)
  have "timers_match (s\<lparr>queue := rest\<rparr>)"
    using c(1) by (rule timers_match_cong) simp_all
  then have "timers_match (sendToWs (s\<lparr>queue := rest\<rparr>) (fst item) (snd item))"
    using none by (intro timers_match_sendToWs) simp_all
  then show ?thesis
    using handles_once_dequeue [OF c(2,3) assms(2)] ids_fresh_dequeue [OF c(3) assms(2)]
    by (simp add: correlated_def)
qed

lemma correlated_processQueue: "correlated s \<Longrightarrow> correlated (processQueue s)"
proof (induction s rule: processQueue.induct)
  case (1 s)
  show ?case
  proof (cases "queue s")
    case Nil
    then show ?thesis using "1.prems" by (simp add: processQueue_Nil)
  next
    case (Cons item rest)
    show ?thesis
    proof (cases "isConnected s")
      case False
      then show ?thesis using "1.prems" by (simp add: processQueue_disconnected)
    next
      case True
      from "1.IH" [OF Cons True correlated_dequeue [OF "1.prems" Cons]] show ?thesis
        by (simp add: processQueue_Cons [OF Cons True])
    qed
  qed
qed

lemma correlated_timers:
  "correlated s \<Longrightarrow> timers_match s' \<Longrightarrow> pending s' = pending s \<Longrightarrow> settled s' = settled s \<Longrightarrow>
     queue s' = queue s \<Longrightarrow> promises s' = promises s \<Longrightarrow> correlated s'"
  unfolding correlated_def
  by (blast intro: handles_once_cong ids_fresh_cong)

lemma correlated_connect: "correlated s \<Longrightarrow> correlated (connect holder s)"
  by (erule correlated_cong) simp_all

lemma correlated_onerror: "correlated s \<Longrightarrow> correlated (onerror s k)"
  by (erule correlated_cong) (simp_all add: onerror_def)

lemma correlated_onopen:
  assumes "correlated s"
  shows "correlated (onopen s k)"
proof -
  let ?a = "resubscribeAll (s\<lparr>isConnected := True, isConnecting := False, retryCount := 0\<rparr>)"
  have "correlated ?a"
    using assms by (rule correlated_cong) (simp_all add: resubscribeAll_def)
  then have p: "correlated (processQueue ?a)"
    by (rule correlated_processQueue)
  then have "timers_match (startHeartbeat (processQueue ?a))"
    by (intro timers_match_startHeartbeat) (simp add: correlated_def)
  then have "timers_match (resolve_connect k (startHeartbeat (processQueue ?a)))"
    by (rule timers_match_cong) simp_all
  with p show ?thesis
    unfolding onopen_def
    by (rule correlated_timers) (simp_all add: startHeartbeat_def setTimer_def stopHeartbeat_def
        clearTimer_def split: option.splits)
qed

lemma correlated_onclose:
  assumes "correlated s"
  shows "correlated (onclose s)"
proof -
  let ?a = "stopHeartbeat (s\<lparr>isConnected := False, isConnecting := False\<rparr>)"
  have "timers_match (s\<lparr>isConnected := False, isConnecting := False\<rparr>)"
    using assms by (simp add: correlated_def timers_match_def)
  then have a: "timers_match ?a" by (rule timers_match_stopHeartbeat)
  have b: "timers_match (attemptReconnect ?a)"
    unfolding attemptReconnect_def
    using a timers_match_set_other [of "?a\<lparr>retryCount := r, console := c\<rparr>" T_reconnect for r c]
    by (simp add: timers_match_def)
  have "timers_match (onclose s)"
    using a b by (simp add: onclose_def Let_def)
  with assms show ?thesis
    by (rule correlated_timers)
      (simp_all add: onclose_def Let_def attemptReconnect_def setTimer_def stopHeartbeat_def
        clearTimer_def split: option.splits)
qed

lemma correlated_handleMessage:
  assumes "correlated s"
  shows "correlated (handleMessage thr s raw)"
proof (cases raw)
  case NotJson
  then show ?thesis using assms by (simp add: handleMessage_def)
next
  case BadJson
  with assms show ?thesis
    by (auto simp: handleMessage_def elim!: correlated_cong)
next
  case (Json msg)
  consider (push) "m_type msg = Some ''pong'' \<or> m_type msg = Some ''table_delta''
        \<or> m_type msg = Some ''action_trace'' \<or> m_request_id msg = None"
    | (drop) rid where "m_type msg \<noteq> Some ''pong''" "m_type msg \<noteq> Some ''table_delta''"
        "m_type msg \<noteq> Some ''action_trace''" "m_request_id msg = Some rid"
        "rid = [] \<or> pending s rid = None"
    | (settle) rid h t where "m_type msg \<noteq> Some ''pong''" "m_type msg \<noteq> Some ''table_delta''"
        "m_type msg \<noteq> Some ''action_trace''" "m_request_id msg = Some rid"
        "rid \<noteq> []" "pending s rid = Some (h, t)"
  proof (cases "m_request_id msg")
    case None
    then show ?thesis using that(1) by blast
  next
    case rid: (Some rid)
    show ?thesis
    proof (cases "m_type msg = Some ''pong'' \<or> m_type msg = Some ''table_delta''
        \<or> m_type msg = Some ''action_trace''")
      case True
      then show ?thesis using that(1) by blast
    next
      case False
      show ?thesis
      proof (cases "pending s rid")
        case None
        with False rid show ?thesis using that(2) [of rid] by blast
      next
        case (Some x)
        obtain h t where "x = (h, t)" by (cases x)
        with Some False rid show ?thesis
          using that(2) [of rid] that(3) [of rid h t] by (cases "rid = []") blast+
      qed
    qed
  qed
  then show ?thesis
  proof cases
    case push
    have "pending (handleMessage thr s raw) = pending s" "timers (handleMessage thr s raw) = timers s"
      "nextTimer (handleMessage thr s raw) = nextTimer s"
      "heartbeatTimer (handleMessage thr s raw) = heartbeatTimer s"
      "settled (handleMessage thr s raw) = settled s" "queue (handleMessage thr s raw) = queue s"
      "promises (handleMessage thr s raw) = promises s"
      using push Json
      by (auto simp: handleMessage_def dispatchSubscription_def caught_def Let_def
          split: option.splits)
    with assms show ?thesis by (rule correlated_cong)
  next
    case drop
    then have "handleMessage thr s raw = s"
      using Json by (auto simp: handleMessage_def)
    with assms show ?thesis by simp
  next
    case settle
    then have "handleMessage thr s raw =
        s\<lparr>timers := (timers s)(t := None), pending := (pending s)(rid := None),
          settled := settled s @ [(h, if m_type msg = Some ''error'' then Reject (m_message msg)
                                      else Resolve (m_result msg))]\<rparr>"
      using Json by (simp add: handleMessage_def clearTimer_def)
    with correlated_settle [OF assms settle(6)] show ?thesis by simp
  qed
qed

lemma correlated_fire_timer:
  assumes "correlated s"
  shows "correlated (fire_timer s t)"
proof (cases "timers s t")
  case None
  then show ?thesis using assms by (simp add: fire_timer_def)
next
  case (Some x)
  obtain d a where x: "x = (d, a)" by (cases x)
  have tm: "timers_match s" using assms by (simp add: correlated_def)
  show ?thesis
  proof (cases a)
    case (T_timeout rid h)
    from timers_matchD(2) [OF tm] Some x T_timeout have p: "pending s rid = Some (h, t)" by simp
    then have "fire_timer s t =
        s\<lparr>timers := (timers s)(t := None), pending := (pending s)(rid := None),
          settled := settled s @ [(h, Reject ''Request Timeout'')]\<rparr>"
      using Some x T_timeout by (simp add: fire_timer_def clearTimer_def)
    with correlated_settle [OF assms p] show ?thesis by simp
  next
    case T_reconnect
    have "timers_match (s\<lparr>timers := (timers s)(t := None)\<rparr>)"
      using tm Some x T_reconnect by (intro timers_match_clear_other) simp_all
    with assms have "correlated (s\<lparr>timers := (timers s)(t := None)\<rparr>)"
      by (rule correlated_timers) simp_all
    then have "correlated (connect Discarded (s\<lparr>timers := (timers s)(t := None)\<rparr>))"
      by (rule correlated_connect)
    then show ?thesis
      using Some x T_reconnect by (simp add: fire_timer_def clearTimer_def)
  next
    case T_heartbeat
    have "correlated (ws_send (Frame None ''ping'' None) s)"
      using assms by (rule correlated_cong) (simp_all add: ws_send_def)
    with assms show ?thesis
      using Some x T_heartbeat by (simp add: fire_timer_def)
  qed
qed

lemma correlated_call:
  assumes "correlated s" and "fresh_call s (E_call rnd method ps)"
  shows "correlated (call s rnd method ps)"
proof -
  let ?p = "make_payload rnd method ps"
  have c: "timers_match s" "handles_once s" "ids_fresh s"
    using assms(1) by (simp_all add: correlated_def)
  have none: "pending s (request_id ?p) = None"
    and notq: "request_id ?p \<notin> set (map (\<lambda>item. request_id (fst item)) (queue s))"
    using assms(2) by (simp_all add: make_payload_def)
  show ?thesis
  proof (cases "isConnected s")
    case True
    have "timers_match (s\<lparr>promises := Suc (promises s)\<rparr>)"
      using c(1) by (rule timers_match_cong) simp_all
    then have "timers_match (sendToWs (s\<lparr>promises := Suc (promises s)\<rparr>) ?p (promises s))"
      using none by (intro timers_match_sendToWs) simp_all
    then show ?thesis
      using True handles_once_call_connected [OF c(2) none] ids_fresh_call_connected [OF c(3) notq]
      by (simp add: call_def correlated_def)
  next
    case False
    let ?s1 = "s\<lparr>promises := Suc (promises s), queue := queue s @ [(?p, promises s)]\<rparr>"
    note D = handles_onceD [OF c(2)]
    have new: "promises s \<notin> settled_handles s" "promises s \<notin> queued_handles s"
      "promises s \<notin> pending_handles s"
      using D(7) by auto
    have sh: "settled_handles ?s1 = settled_handles s"
      and qh: "queued_handles ?s1 = insert (promises s) (queued_handles s)"
      and ph: "pending_handles ?s1 = pending_handles s"
      by (auto simp: settled_handles_def queued_handles_def pending_handles_def)
    have h: "handles_once ?s1"
    proof (rule handles_onceI)
      show "distinct (map fst (settled ?s1))" using D(1) by simp
      show "distinct (map snd (queue ?s1))" using D(2) new(2) by (simp add: queued_handles_def)
      show "settled_handles ?s1 \<inter> queued_handles ?s1 = {}" unfolding sh qh using D(3) new(1) by auto
      show "settled_handles ?s1 \<inter> pending_handles ?s1 = {}" unfolding sh ph by (rule D(4))
      show "queued_handles ?s1 \<inter> pending_handles ?s1 = {}" unfolding qh ph using D(5) new(3) by auto
      show "handle_inj (pending ?s1)" using D(6) by simp
      show "settled_handles ?s1 \<union> queued_handles ?s1 \<union> pending_handles ?s1 = {h. h < promises ?s1}"
        unfolding sh qh ph using D(7) by (auto simp: less_Suc_eq)
    qed
    have i: "ids_fresh ?s1"
      using c(3) none notq by (auto simp: ids_fresh_def)
    have t: "timers_match ?s1"
      using c(1) by (rule timers_match_cong) simp_all
    have "correlated ?s1" using t h i by (simp add: correlated_def)
    then have "correlated (connect Discarded ?s1)" by (rule correlated_connect)
    with \<open>correlated ?s1\<close> show ?thesis
      using False by (simp add: call_def Let_def)
  qed
qed

lemma correlated_subscriptions:
  "correlated s \<Longrightarrow> correlated (subscribeTable s code scope table c)"
  "correlated s \<Longrightarrow> correlated (unsubscribeTable s code scope table c)"
  "correlated s \<Longrightarrow> correlated (step s (E_subscribeTrace codeAction c))"
  "correlated s \<Longrightarrow> correlated (unsubscribeTrace s code action c)"
  by (erule correlated_cong;
      simp add: subscribeTable_def unsubscribeTable_def subscribeTrace_def unsubscribeTrace_def
        Let_def ws_send_def split: option.splits)+

lemma correlated_step: "correlated s \<Longrightarrow> fresh_call s e \<Longrightarrow> correlated (step s e)"
proof (cases e)
  case (E_subscribeTrace codeAction c)
  assume "correlated s"
  then show ?thesis unfolding E_subscribeTrace by (rule correlated_subscriptions)
qed (simp_all add: correlated_connect correlated_onopen correlated_onclose correlated_onerror
    correlated_handleMessage correlated_fire_timer correlated_call correlated_subscriptions)

lemma correlated_run: "correlated s \<Longrightarrow> fresh_ids s evs \<Longrightarrow> correlated (run s evs)"
  by (induction evs arbitrary: s) (simp_all add: correlated_step del: step.simps)

lemma correlated_new_client: "correlated (new_client mode ok ro rnd)"
  by (simp add: correlated_def timers_match_def handles_once_def ids_fresh_def handle_inj_def
      settled_handles_def queued_handles_def pending_handles_def new_client_def
      fresh_client_def connect_def)

lemma fresh_ids_append:
  "fresh_ids s (es @ fs) \<longleftrightarrow> fresh_ids s es \<and> fresh_ids (run s es) fs"
  by (induction es arbitrary: s) (simp_all del: step.simps)

lemma filter_fst_distinct:
  "distinct (map fst xs) \<Longrightarrow> length (filter (\<lambda>x. fst x = h) xs) \<le> Suc 0"
  by (induction xs) (auto simp: filter_empty_conv image_iff)

lemma outcomes_empty: "outcomes h s = [] \<longleftrightarrow> h \<notin> settled_handles s"
  by (auto simp: outcomes_def settled_handles_def filter_empty_conv image_iff)

lemma step_queue_promises:
  "promises s \<le> promises (step s e)
   \<and> queued_handles (step s e) \<subseteq> insert (promises s) (queued_handles s)"
proof (cases e)
  case (E_open k)
  have "queue (onopen s k) = []" using onopen_effect [of s k] by simp
  moreover have "promises (onopen s k) = promises s"
    by (simp add: onopen_def startHeartbeat_def setTimer_def stopHeartbeat_def clearTimer_def
        resubscribeAll_def split: option.splits)
  ultimately show ?thesis using E_open by (simp add: queued_handles_def)
next
  case (E_call rnd meth ps)
  then show ?thesis
    by (auto simp: call_def Let_def queued_handles_def)
next
  case (E_message thr raw)
  then show ?thesis
    by (auto simp: handleMessage_def dispatchSubscription_def caught_def Let_def clearTimer_def
        queued_handles_def split: raw_data.splits option.splits prod.splits)
next
  case (E_timer t)
  then show ?thesis
    by (auto simp: fire_timer_def clearTimer_def ws_send_def queued_handles_def
        split: option.splits prod.splits timer_action.splits)
qed (auto simp: onclose_def Let_def attemptReconnect_def setTimer_def onerror_def
    stopHeartbeat_def clearTimer_def subscribeTable_def unsubscribeTable_def subscribeTrace_def unsubscribeTrace_def ws_send_def
    queued_handles_def split: option.splits)

lemma never_queued:
  "h < promises s \<Longrightarrow> h \<notin> queued_handles s \<Longrightarrow>
     h < promises (run s evs) \<and> h \<notin> queued_handles (run s evs)"
proof (induction evs arbitrary: s)
  case Nil
  then show ?case by simp
next
  case (Cons e evs)
  from step_queue_promises [of s e] Cons.prems
  have "h < promises (step s e)" and "h \<notin> queued_handles (step s e)" by auto
  from Cons.IH [OF this] show ?case by (simp del: step.simps)
qed

lemma correlated_unsettled:
  assumes "correlated s" and "h < promises s" and "h \<notin> queued_handles s" and "outcomes h s = []"
  shows "\<exists>rid t d. pending s rid = Some (h, t) \<and> timers s t = Some (d, T_timeout rid h)
           \<and> outcomes h (fire_timer s t) = [Reject ''Request Timeout'']"
proof -
  have tm: "timers_match s" and ho: "handles_once s"
    using assms(1) by (simp_all add: correlated_def)
  have "h \<notin> settled_handles s" using assms(4) by (simp add: outcomes_empty)
  with handles_onceD(7) [OF ho] assms(2,3) have "h \<in> pending_handles s" by auto
  then obtain rid t where p: "pending s rid = Some (h, t)"
    by (auto simp: pending_handles_def)
  from timers_matchD(1) [OF tm p] obtain d where d: "timers s t = Some (d, T_timeout rid h)"
    by blast
  have "settled (fire_timer s t) = settled s @ [(h, Reject ''Request Timeout'')]"
    using p d by (simp add: fire_timer_def clearTimer_def)
  then have "outcomes h (fire_timer s t) = outcomes h s @ [Reject ''Request Timeout'']"
    by (simp add: outcomes_def)
  with p d assms(4) show ?thesis by auto
qed

lemma onclose_fields:
  "isConnected (onclose s) = False"
  "isConnecting (onclose s) = False"
  "endpoint_ok (onclose s) = endpoint_ok s"
  "sockets (onclose s) = sockets s"
  by (simp_all add: onclose_def Let_def attemptReconnect_def setTimer_def stopHeartbeat_def
      clearTimer_def split: option.splits)

lemma onclose_keeps [simp]:
  "queue (onclose s) = queue s"
  "sent (onclose s) = sent s"
  "pending (onclose s) = pending s"
  "settled (onclose s) = settled s"
  "promises (onclose s) = promises s"
  "tableSubs (onclose s) = tableSubs s"
  "traceSubs (onclose s) = traceSubs s"
  "client_id (onclose s) = client_id s"
  "exited (onclose s) = exited s"
  "onUnhandled (onclose s) = onUnhandled s"
  by (simp_all add: onclose_def Let_def attemptReconnect_def setTimer_def stopHeartbeat_def
      clearTimer_def split: option.splits)

lemma sendToWs_registry [simp]:
  "tableSubs (sendToWs s p h) = tableSubs s"
  "traceSubs (sendToWs s p h) = traceSubs s"
  "client_id (sendToWs s p h) = client_id s"
  by (simp_all add: sendToWs_def ws_send_def setTimer_def)

lemma sendToWs_closing_fields [simp]:
  "queue (sendToWs_closing c s p h) = queue s"
  "sent (sendToWs_closing c s p h) = sent s @ [stringify p]"
  "tableSubs (sendToWs_closing c s p h) = tableSubs s"
  "traceSubs (sendToWs_closing c s p h) = traceSubs s"
  "client_id (sendToWs_closing c s p h) = client_id s"
  "isConnected (sendToWs_closing c s p h) = (\<not> c \<and> isConnected s)"
  by (simp_all add: sendToWs_closing_def onclose_fields)

lemma processQueue_closing_disconnected:
  "\<not> isConnected s \<Longrightarrow> processQueue_closing closes s = s"
  by (subst processQueue_closing.simps) (simp split: list.split)

lemma processQueue_closing_Nil: "queue s = [] \<Longrightarrow> processQueue_closing closes s = s"
  by (subst processQueue_closing.simps) simp

lemma processQueue_closing_Cons:
  "queue s = item # rest \<Longrightarrow> isConnected s \<Longrightarrow>
     processQueue_closing closes s =
       processQueue_closing (\<lambda>j. closes (Suc j))
         (sendToWs_closing (closes 0) (s\<lparr>queue := rest\<rparr>) (fst item) (snd item))"
  by (subst processQueue_closing.simps) simp

lemma processQueue_closing_registry:
  "tableSubs (processQueue_closing closes s) = tableSubs s
   \<and> traceSubs (processQueue_closing closes s) = traceSubs s
   \<and> client_id (processQueue_closing closes s) = client_id s"
proof (induction closes s rule: processQueue_closing.induct)
  case (1 closes s)
  show ?case
  proof (cases "queue s")
    case Nil
    then show ?thesis by (simp add: processQueue_closing_Nil)
  next
    case (Cons item rest)
    show ?thesis
    proof (cases "isConnected s")
      case False
      then show ?thesis by (simp add: processQueue_closing_disconnected)
    next
      case True
      from "1.IH" [OF Cons True] show ?thesis
        by (simp add: processQueue_closing_Cons [OF Cons True])
    qed
  qed
qed

text \<open>A socket that closes in none of the sends: the loop is \<open>processQueue\<close>.\<close>

lemma processQueue_closing_quiet:
  "\<forall>j<length (queue s). \<not> closes j \<Longrightarrow> processQueue_closing closes s = processQueue s"
proof (induction closes s rule: processQueue_closing.induct)
  case (1 closes s)
  show ?case
  proof (cases "queue s")
    case Nil
    then show ?thesis by (simp add: processQueue_closing_Nil processQueue_Nil)
  next
    case (Cons item rest)
    show ?thesis
    proof (cases "isConnected s")
      case False
      then show ?thesis
        by (simp add: processQueue_closing_disconnected processQueue_disconnected)
    next
      case True
      from "1.prems" Cons have z: "\<not> closes 0" and r: "\<forall>j<length rest. \<not> closes (Suc j)"
        by auto
      have "processQueue_closing (\<lambda>j. closes (Suc j))
              (sendToWs_closing (closes 0) (s\<lparr>queue := rest\<rparr>) (fst item) (snd item)) =
            processQueue (sendToWs_closing (closes 0) (s\<lparr>queue := rest\<rparr>) (fst item) (snd item))"
        using r by (intro "1.IH" [OF Cons True]) simp
      then show ?thesis
        using z by (simp add: processQueue_closing_Cons [OF Cons True] processQueue_Cons [OF Cons True]
            sendToWs_closing_def)
    qed
  qed
qed

text \<open>
  A socket that closes for the first time in the send of entry \<open>i\<close>: the loop sends the
  entries up to that one and leaves the others queued.
\<close>

lemma processQueue_closing_stops:
  "isConnected s \<Longrightarrow> i < length (queue s) \<Longrightarrow> \<forall>j<i. \<not> closes j \<Longrightarrow> closes i \<Longrightarrow>
     sent (processQueue_closing closes s) = sent s @ take (Suc i) (queue_frames s)
     \<and> queue (processQueue_closing closes s) = drop (Suc i) (queue s)
     \<and> \<not> isConnected (processQueue_closing closes s)"
proof (induction i arbitrary: s closes)
  case 0
  then obtain item rest where q: "queue s = item # rest" by (cases "queue s") auto
  let ?s1 = "sendToWs_closing (closes 0) (s\<lparr>queue := rest\<rparr>) (fst item) (snd item)"
  have d: "\<not> isConnected ?s1" using "0.prems"(4) by simp
  have "processQueue_closing closes s = ?s1"
    using processQueue_closing_Cons [OF q "0.prems"(1), of closes]
      processQueue_closing_disconnected [OF d] by simp
  then show ?case using q d by (simp add: queue_frames_def)
next
  case (Suc i)
  then obtain item rest where q: "queue s = item # rest" by (cases "queue s") auto
  let ?s1 = "sendToWs_closing (closes 0) (s\<lparr>queue := rest\<rparr>) (fst item) (snd item)"
  have z: "\<not> closes 0" using Suc.prems(3) by simp
  have c: "isConnected ?s1" using z Suc.prems(1) by simp
  have l: "i < length (queue ?s1)" using Suc.prems(2) q by simp
  have n: "\<forall>j<i. \<not> closes (Suc j)" using Suc.prems(3) by simp
  from Suc.IH [OF c l n Suc.prems(4)]
  show ?case
    using q by (simp add: processQueue_closing_Cons [OF q Suc.prems(1)] queue_frames_def)
qed

lemma onopen_closing_quiet:
  "\<forall>j<length (queue s). \<not> closes j \<Longrightarrow> onopen_closing closes s k = onopen s k"
  by (simp add: onopen_closing_def onopen_def processQueue_closing_quiet)

lemma onopen_closing_stops:
  assumes "i < length (queue s)" and "\<forall>j<i. \<not> closes j" and "closes i"
  shows "sent (onopen_closing closes s k) = sent s @ replay_frames s @ take (Suc i) (queue_frames s)"
    and "queue (onopen_closing closes s k) = drop (Suc i) (queue s)"
    and "\<not> isConnected (onopen_closing closes s k)"
    and "replay_frames (onopen_closing closes s k) = replay_frames s"
proof -
  let ?b = "resubscribeAll (s\<lparr>isConnected := True, isConnecting := False, retryCount := 0\<rparr>)"
  have c: "isConnected ?b" by simp
  have l: "i < length (queue ?b)" using assms(1) by simp
  note st = processQueue_closing_stops [OF c l assms(2,3)]
  note rg = processQueue_closing_registry [of closes ?b]
  show "sent (onopen_closing closes s k) = sent s @ replay_frames s @ take (Suc i) (queue_frames s)"
    using st by (simp add: onopen_closing_def queue_frames_def replay_frames_def)
  show "queue (onopen_closing closes s k) = drop (Suc i) (queue s)"
    using st by (simp add: onopen_closing_def)
  show "\<not> isConnected (onopen_closing closes s k)"
    using st by (simp add: onopen_closing_def)
  show "replay_frames (onopen_closing closes s k) = replay_frames s"
    using rg by (simp add: onopen_closing_def replay_frames_def startHeartbeat_def setTimer_def
        stopHeartbeat_def clearTimer_def resubscribeAll_def split: option.splits)
qed

text \<open>
  The end of the process. Only the rejection of a \<open>connect\<close> promise that nobody holds
  ends it, and only in a runtime that exits on an unhandled rejection; once ended it stays
  ended, so a run whose last state has not exited has not exited anywhere on the way.
\<close>

lemma exited_reject_connect:
  "exited (reject_connect k s) =
     (exited s \<or> (k < length (connectPromises s) \<and> connectPromises s ! k = (Discarded, P_pending)
                   \<and> onUnhandled s = Exit))"
  by (auto simp: reject_connect_def prod_eq_iff)

lemma exited_resolve_connect [simp]: "exited (resolve_connect k s) = exited s"
  by (simp add: resolve_connect_def)

lemma exited_connect:
  "exited (connect holder s) =
     (exited s \<or> (\<not> isConnected s \<and> \<not> isConnecting s \<and> \<not> endpoint_ok s
                   \<and> holder = Discarded \<and> onUnhandled s = Exit))"
  by (auto simp: connect_def exited_reject_connect)

lemma onUnhandled_connect [simp]: "onUnhandled (connect holder s) = onUnhandled s"
  by (simp add: connect_def)

lemma exited_onopen [simp]: "exited (onopen s k) = exited s" "onUnhandled (onopen s k) = onUnhandled s"
  by (simp_all add: onopen_def startHeartbeat_def setTimer_def stopHeartbeat_def clearTimer_def
      resubscribeAll_def split: option.splits)

lemma exited_onerror:
  "exited (onerror s k) =
     (exited s \<or> (\<not> isConnected s \<and> k < length (connectPromises s)
                   \<and> connectPromises s ! k = (Discarded, P_pending) \<and> onUnhandled s = Exit))"
  "onUnhandled (onerror s k) = onUnhandled s"
  by (auto simp: onerror_def exited_reject_connect)

lemma exited_handleMessage [simp]:
  "exited (handleMessage thr s raw) = exited s"
  "onUnhandled (handleMessage thr s raw) = onUnhandled s"
  by (auto simp: handleMessage_def caught_def dispatchSubscription_def Let_def clearTimer_def
      split: raw_data.splits option.splits)

lemma exited_fire_timer:
  "exited s \<Longrightarrow> exited (fire_timer s t)"
  "onUnhandled s = Warn \<Longrightarrow> exited (fire_timer s t) = exited s"
  "onUnhandled (fire_timer s t) = onUnhandled s"
  by (auto simp: fire_timer_def exited_connect clearTimer_def ws_send_def
      split: option.splits timer_action.splits)

lemma exited_call:
  "exited s \<Longrightarrow> exited (call s rnd m ps)"
  "onUnhandled s = Warn \<Longrightarrow> exited (call s rnd m ps) = exited s"
  "onUnhandled (call s rnd m ps) = onUnhandled s"
  by (auto simp: call_def Let_def exited_connect sendToWs_def ws_send_def setTimer_def)

lemma exited_subscribeTable:
  "exited s \<Longrightarrow> exited (subscribeTable s code scope table c)"
  "onUnhandled s = Warn \<Longrightarrow> exited (subscribeTable s code scope table c) = exited s"
  "onUnhandled (subscribeTable s code scope table c) = onUnhandled s"
  by (auto simp: subscribeTable_def Let_def exited_connect ws_send_def)

lemma exited_unsubscribeTable [simp]:
  "exited (unsubscribeTable s code scope table c) = exited s"
  "onUnhandled (unsubscribeTable s code scope table c) = onUnhandled s"
  by (auto simp: unsubscribeTable_def Let_def ws_send_def split: option.splits)

lemma exited_subscribeTrace:
  assumes "subscribeTrace s codeAction c = Inr s'"
  shows "exited s \<Longrightarrow> exited s'"
    and "onUnhandled s = Warn \<Longrightarrow> exited s' = exited s"
    and "onUnhandled s' = onUnhandled s"
  using assms
  by (auto simp: subscribeTrace_def Let_def exited_connect ws_send_def split: if_splits)

lemma exited_unsubscribeTrace [simp]:
  "exited (unsubscribeTrace s code action c) = exited s"
  "onUnhandled (unsubscribeTrace s code action c) = onUnhandled s"
  by (auto simp: unsubscribeTrace_def Let_def ws_send_def split: option.splits)

lemma step_exit:
  "onUnhandled (step s e) = onUnhandled s"
  "exited s \<Longrightarrow> exited (step s e)"
  "onUnhandled s = Warn \<Longrightarrow> exited (step s e) = exited s"
proof -
  have "onUnhandled (step s e) = onUnhandled s
      \<and> (exited s \<longrightarrow> exited (step s e))
      \<and> (onUnhandled s = Warn \<longrightarrow> exited (step s e) = exited s)"
  proof (cases e)
    case E_connect
    then show ?thesis by (simp add: exited_connect)
  next
    case (E_open k)
    then show ?thesis by simp
  next
    case E_close
    then show ?thesis by simp
  next
    case (E_error k)
    then show ?thesis by (simp add: exited_onerror)
  next
    case (E_message thr raw)
    then show ?thesis by simp
  next
    case (E_timer t)
    then show ?thesis using exited_fire_timer [of s t] by simp
  next
    case (E_call rnd meth ps)
    then show ?thesis using exited_call [of s rnd meth ps] by simp
  next
    case (E_subscribeTable code scope table c)
    then show ?thesis using exited_subscribeTable [of s code scope table c] by simp
  next
    case (E_unsubscribeTable code scope table c)
    then show ?thesis by simp
  next
    case (E_subscribeTrace codeAction c)
    then show ?thesis
      using exited_subscribeTrace [of s codeAction c] by (simp split: sum.splits)
  next
    case (E_unsubscribeTrace code action c)
    then show ?thesis by simp
  qed
  then show "onUnhandled (step s e) = onUnhandled s"
    and "exited s \<Longrightarrow> exited (step s e)"
    and "onUnhandled s = Warn \<Longrightarrow> exited (step s e) = exited s"
    by simp_all
qed

lemma run_exit:
  "onUnhandled (run s evs) = onUnhandled s"
  "exited s \<Longrightarrow> exited (run s evs)"
  "onUnhandled s = Warn \<Longrightarrow> exited (run s evs) = exited s"
proof -
  have "onUnhandled (run s evs) = onUnhandled s
      \<and> (exited s \<longrightarrow> exited (run s evs))
      \<and> (onUnhandled s = Warn \<longrightarrow> exited (run s evs) = exited s)"
  proof (induction evs arbitrary: s)
    case Nil
    then show ?case by simp
  next
    case (Cons e es)
    show ?case
      using Cons.IH [of "step s e"] step_exit [of s e] by simp
  qed
  then show "onUnhandled (run s evs) = onUnhandled s"
    and "exited s \<Longrightarrow> exited (run s evs)"
    and "onUnhandled s = Warn \<Longrightarrow> exited (run s evs) = exited s"
    by simp_all
qed

lemma not_exited_before: "\<not> exited (run s (es @ fs)) \<Longrightarrow> \<not> exited (run s es)"
  using run_exit(2) [of "run s es" fs] by auto

lemma warn_never_exits: "\<not> exited (run (new_client Warn ok ro rnd) evs)"
proof -
  have "onUnhandled (new_client Warn ok ro rnd) = Warn"
    and "\<not> exited (new_client Warn ok ro rnd)"
    by (simp_all add: new_client_def fresh_client_def exited_connect)
  then show ?thesis
    using run_exit(3) [of "new_client Warn ok ro rnd" evs] by simp
qed

text \<open>
  The constructor and the timer of \<open>attemptReconnect\<close> drop the promise that \<open>connect\<close>
  returns. In a runtime that exits on an unhandled rejection, the first attempt that fails
  therefore ends the process, whatever events would follow.
\<close>

lemma failed_attempt_exits:
  assumes "autoConnect (resolve_options ro)"
  shows "exited (run (new_client Exit True ro rnd) (E_error 0 # evs))"
proof -
  have "exited (step (new_client Exit True ro rnd) (E_error 0))"
    using assms
    by (simp add: new_client_def fresh_client_def connect_def exited_onerror)
  then show ?thesis
    using run_exit(2) [of "step (new_client Exit True ro rnd) (E_error 0)" evs] by simp
qed

text \<open>
  No operation of the caller disconnects the client, stops the heartbeat, touches the retry
  counter, settles a call, or removes a pending call, a queued call or an armed timer.
\<close>

lemma caller_step_keeps:
  assumes "caller_event e"
  shows "isConnected (step s e) = isConnected s"
    and "heartbeatTimer (step s e) = heartbeatTimer s"
    and "retryCount (step s e) = retryCount s"
    and "settled (step s e) = settled s"
    and "dom (pending s) \<subseteq> dom (pending (step s e))"
    and "dom (timers s) \<subseteq> dom (timers (step s e))"
    and "prefix (queue s) (queue (step s e))"
proof -
  have "isConnected (step s e) = isConnected s
      \<and> heartbeatTimer (step s e) = heartbeatTimer s
      \<and> retryCount (step s e) = retryCount s
      \<and> settled (step s e) = settled s
      \<and> dom (pending s) \<subseteq> dom (pending (step s e))
      \<and> dom (timers s) \<subseteq> dom (timers (step s e))
      \<and> prefix (queue s) (queue (step s e))"
  proof (cases e)
    case E_connect
    then show ?thesis by simp
  next
    case (E_call rnd meth ps)
    then show ?thesis
      by (auto simp: call_def Let_def sendToWs_def ws_send_def setTimer_def)
  next
    case (E_subscribeTable code scope table c)
    then show ?thesis
      by (auto simp: subscribeTable_def Let_def ws_send_def)
  next
    case (E_unsubscribeTable code scope table c)
    then show ?thesis
      by (auto simp: unsubscribeTable_def Let_def ws_send_def split: option.splits)
  next
    case (E_subscribeTrace codeAction c)
    then show ?thesis
      by (auto simp: subscribeTrace_def Let_def ws_send_def split: sum.splits if_splits)
  next
    case (E_unsubscribeTrace code action c)
    then show ?thesis
      by (auto simp: unsubscribeTrace_def Let_def ws_send_def split: option.splits)
  next
    case (E_open k)
    with assms show ?thesis by simp
  next
    case E_close
    with assms show ?thesis by simp
  next
    case (E_error k)
    with assms show ?thesis by simp
  next
    case (E_message thr raw)
    with assms show ?thesis by simp
  next
    case (E_timer t)
    with assms show ?thesis by simp
  qed
  then show "isConnected (step s e) = isConnected s"
    and "heartbeatTimer (step s e) = heartbeatTimer s"
    and "retryCount (step s e) = retryCount s"
    and "settled (step s e) = settled s"
    and "dom (pending s) \<subseteq> dom (pending (step s e))"
    and "dom (timers s) \<subseteq> dom (timers (step s e))"
    and "prefix (queue s) (queue (step s e))"
    by simp_all
qed

text \<open>The whole effect of the handler of \<open>close\<close>, and what it does to the timers.\<close>

lemma onclose_whole:
  "onclose s =
     s\<lparr>isConnected := False, isConnecting := False, heartbeatTimer := None,
       timers := (\<lambda>t. if t = nextTimer s \<and> autoReconnect (opts s) \<and> retryCount s < maxRetries (opts s)
                       then Some (reconnectInterval (opts s), T_reconnect)
                       else if heartbeatTimer s = Some t then None else timers s t),
       nextTimer := (if autoReconnect (opts s) \<and> retryCount s < maxRetries (opts s)
                     then Suc (nextTimer s) else nextTimer s),
       retryCount := (if autoReconnect (opts s) \<and> retryCount s < maxRetries (opts s)
                      then retryCount s + 1 else retryCount s),
       console := (if autoReconnect (opts s) \<and> retryCount s < maxRetries (opts s)
                   then console s @ [Reconnecting (retryCount s + 1) (maxRetries (opts s))
                                       (reconnectInterval (opts s))]
                   else console s)\<rparr>"
  by (cases "heartbeatTimer s")
    (auto simp: onclose_def Let_def attemptReconnect_def setTimer_def stopHeartbeat_def
      clearTimer_def fun_eq_iff)


lemma onclose_timers:
  "heartbeatTimer (onclose s) = None"
  "heartbeatTimer s = Some t \<Longrightarrow> t \<noteq> nextTimer s \<Longrightarrow> timers (onclose s) t = None"
  "heartbeatTimer s \<noteq> Some t \<Longrightarrow> t \<noteq> nextTimer s \<Longrightarrow> timers (onclose s) t = timers s t"
  "autoReconnect (opts s) \<Longrightarrow> retryCount s < maxRetries (opts s) \<Longrightarrow>
     timers (onclose s) (nextTimer s) = Some (reconnectInterval (opts s), T_reconnect)"
  by (auto simp: onclose_def Let_def attemptReconnect_def setTimer_def stopHeartbeat_def
      clearTimer_def split: option.splits)

subsection \<open>Responses\<close>

text \<open>
  C8. An inbound frame that is not a pong and not a push event is a response. If it carries
  a non-empty \<open>request_id\<close> under which a call is pending, the call's timer is cleared, the
  entry is deleted and the call is settled: rejected with the frame's \<open>message\<close> when the
  frame's type is \<open>error\<close>, resolved with the frame's \<open>result\<close> otherwise. If no call is
  pending under its \<open>request_id\<close>, or it has none, the client is left as it was.
\<close>

theorem response_correlation:
  assumes "m_type msg \<noteq> Some ''pong''" and "m_type msg \<noteq> Some ''table_delta''"
    and "m_type msg \<noteq> Some ''action_trace''"
  shows "(m_request_id msg = Some rid \<and> rid \<noteq> [] \<and> pending s rid = Some (h, t) \<longrightarrow>
            handleMessage thr s (Json msg) =
              s\<lparr>timers := (timers s)(t := None),
                pending := (pending s)(rid := None),
                settled := settled s @
                  [(h, if m_type msg = Some ''error'' then Reject (m_message msg)
                       else Resolve (m_result msg))]\<rparr>)
       \<and> ((\<forall>r. m_request_id msg = Some r \<longrightarrow> pending s r = None) \<longrightarrow>
            handleMessage thr s (Json msg) = s)"
  using assms by (auto simp: handleMessage_def clearTimer_def split: option.splits)

text \<open>
  The theorem at a client with one call pending: an error response to that call rejects it,
  and a response to some other identifier is dropped.
\<close>

theorem response_correlation_witness:
  "handleMessage (\<lambda>_. False) demo_calling (Json (demo_response (Some ''error'') (uuid (\<lambda>_. 1)))) =
     demo_calling\<lparr>timers := (timers demo_calling)(1 := None),
       pending := (pending demo_calling)(uuid (\<lambda>_. 1) := None),
       settled := settled demo_calling @ [(0, Reject ''boom'')]\<rparr>
   \<and> handleMessage (\<lambda>_. False) demo_calling (Json (demo_response None (uuid (\<lambda>_. 2)))) =
     demo_calling"
  using response_correlation [of "demo_response (Some ''error'') (uuid (\<lambda>_. 1))" "uuid (\<lambda>_. 1)"
      demo_calling 0 1 "\<lambda>_. False"]
    response_correlation [of "demo_response None (uuid (\<lambda>_. 2))" "uuid (\<lambda>_. 2)"
      demo_calling 0 1 "\<lambda>_. False"]
    demo_calling_pending demo_calling_no_pending uuid_1_truthy
  by (simp add: demo_response_def)

subsection \<open>Push events\<close>



text \<open>
  C4, as amended. In a fan-out, the callbacks run in order up to and including the first one
  that throws; the callbacks after it are not run. \<open>handleMessage\<close> catches the exception
  and writes a line to the console, and nothing else of the client changes.
\<close>

theorem fanout_ends_at_throw:
  assumes "\<forall>x\<in>set pre. \<not> thr x" and "thr c"
  shows "(m_type msg = Some ''table_delta'' \<and> table_matches s msg = pre @ c # post \<longrightarrow>
            handleMessage thr s (Json msg) =
              s\<lparr>invoked := invoked s @ pre @ [c], console := console s @ [ParseError]\<rparr>)
       \<and> (m_type msg = Some ''action_trace'' \<and> trace_matches s msg = pre @ c # post \<longrightarrow>
            handleMessage thr s (Json msg) =
              s\<lparr>invoked := invoked s @ pre @ [c], console := console s @ [ParseError]\<rparr>)"
proof -
  have f: "forEach_cb thr (pre @ c # post) = (pre @ [c], True)"
    using assms by (rule forEach_cb_throw)
  have "handleMessage thr s (Json msg) =
            s\<lparr>invoked := invoked s @ pre @ [c], console := console s @ [ParseError]\<rparr>"
    if "m_type msg = Some ''table_delta''" and "table_matches s msg = pre @ c # post"
    using handleMessage_table_delta [OF that(1), of thr s] f
    by (simp only: that(2) fst_conv snd_conv caught_def) simp
  moreover have "handleMessage thr s (Json msg) =
            s\<lparr>invoked := invoked s @ pre @ [c], console := console s @ [ParseError]\<rparr>"
    if "m_type msg = Some ''action_trace''" and "trace_matches s msg = pre @ c # post"
  proof -
    have "trace_matches s msg \<noteq> []" using that(2) by simp
    from handleMessage_action_trace [OF that(1) this, of thr] f show ?thesis
      by (simp only: that(2) fst_conv snd_conv caught_def) simp
  qed
  ultimately show ?thesis by blast
qed

text \<open>The theorem where callback 1 throws: callbacks 2 and 3 of the same fan-out do not run.\<close>

theorem fanout_ends_at_throw_witness:
  "handleMessage (\<lambda>c. c = 1) demo_subscribed (Json demo_delta) =
     demo_subscribed\<lparr>invoked := invoked demo_subscribed @ [] @ [1],
       console := console demo_subscribed @ [ParseError]\<rparr>"
proof -
  have m: "table_matches demo_subscribed demo_delta = [] @ 1 # [2, 3]" by code_simp
  have t: "m_type demo_delta = Some ''table_delta''" by (simp add: demo_delta_def)
  have h1: "\<forall>x\<in>set []. \<not> (\<lambda>c. c = (1::nat)) x" by simp
  have h2: "(\<lambda>c. c = (1::nat)) 1" by simp
  show ?thesis
    using fanout_ends_at_throw [OF h1 h2, of demo_delta demo_subscribed "[2, 3]"] m t
    by blast
qed

text \<open>
  Callbacks are not isolated from one another: callback 2 is registered for the key of the
  event, after callback 1, and does not run when callback 1 throws.
\<close>

theorem fanout_isolation_counterexample:
  "table_matches demo_subscribed demo_delta = [1, 2, 3]
   \<and> invoked (handleMessage (\<lambda>c. c = 1) demo_subscribed (Json demo_delta)) = [1]"
  by code_simp

subsection \<open>Connection life cycle\<close>

text \<open>
  C2, as amended. When the socket opens, the retry counter is reset to zero, then the
  subscription registry is replayed, then the queue is drained, then the heartbeat is
  started: the frames of the replay are sent before the frames of the queued calls, the queue
  ends empty, and the heartbeat timer is the one armed after the deadline timers of the
  drained calls.
\<close>

theorem onopen_order:
  "retryCount (onopen s k) = 0
   \<and> isConnected (onopen s k)
   \<and> sent (onopen s k) = sent s @ replay_frames s @ queue_frames s
   \<and> queue (onopen s k) = []
   \<and> heartbeatTimer (onopen s k) = Some (nextTimer s + length (queue s))
   \<and> timers (onopen s k) (nextTimer s + length (queue s)) = Some (HEARTBEAT_INTERVAL, T_heartbeat)"
  by (rule onopen_effect)

text \<open>The theorem at a client with one subscription registered and one call queued.\<close>

theorem onopen_order_witness:
  "retryCount (onopen demo_offline 0) = 0
   \<and> sent (onopen demo_offline 0) = replay_frames demo_offline @ queue_frames demo_offline
   \<and> queue (onopen demo_offline 0) = []
   \<and> heartbeatTimer (onopen demo_offline 0) = Some 1
   \<and> timers (onopen demo_offline 0) 1 = Some (HEARTBEAT_INTERVAL, T_heartbeat)"
proof -
  have "sent demo_offline = []" and "nextTimer demo_offline = 0"
    and "length (queue demo_offline) = 1"
    by code_simp+
  then show ?thesis
    using onopen_order [of demo_offline] by simp
qed

text \<open>
  With one subscription registered and one call queued, the handler sends the subscribe frame
  first and the call second; in the order of the specification the call would go first.
\<close>

theorem onopen_order_counterexample:
  "sent (onopen demo_offline 0) =
     [Frame (Some (uuid (\<lambda>_. 0))) ''subscribe_table''
        (Some (P_table (Str ''eosio.token'') (Str ''accounts'') (Str ''alice''))),
      Frame (Some (uuid (\<lambda>_. 1))) ''get_info'' (Some P_empty_string)]
   \<and> sent (onopen_spec_order demo_offline 0) =
     [Frame (Some (uuid (\<lambda>_. 1))) ''get_info'' (Some P_empty_string),
      Frame (Some (uuid (\<lambda>_. 0))) ''subscribe_table''
        (Some (P_table (Str ''eosio.token'') (Str ''accounts'') (Str ''alice'')))]"
  by code_simp





text \<open>
  C9, as amended. When the socket closes with \<open>autoReconnect\<close> set and the retry counter
  below \<open>maxRetries\<close>, the counter is incremented and a timer of \<open>reconnectInterval\<close> is armed
  that calls \<open>connect\<close>, which opens a new socket. Once the counter has reached
  \<open>maxRetries\<close>, and whenever \<open>autoReconnect\<close> is not set, a closure arms no timer and leaves
  the counter. A later \<open>call\<close> on a client that is neither connected nor connecting is queued
  and itself opens a new socket, whatever the counter, and the queue is drained when that
  socket opens. In a runtime that only warns of an unhandled rejection, with
  \<open>maxRetries = 2\<close> and every attempt failing, the initial attempt is followed by two
  automatic ones (three sockets), after which no timer is armed, and the process has not
  ended.
\<close>

theorem reconnect_budget:
  "(autoReconnect (opts s) \<and> retryCount s < maxRetries (opts s) \<longrightarrow>
      retryCount (onclose s) = retryCount s + 1
    \<and> timers (onclose s) (nextTimer s) = Some (reconnectInterval (opts s), T_reconnect)
    \<and> nextTimer (onclose s) = Suc (nextTimer s)
    \<and> (endpoint_ok s \<longrightarrow> sockets (fire_timer (onclose s) (nextTimer s)) = Suc (sockets s)))
   \<and> (\<not> autoReconnect (opts s) \<or> \<not> retryCount s < maxRetries (opts s) \<longrightarrow>
      retryCount (onclose s) = retryCount s
    \<and> nextTimer (onclose s) = nextTimer s
    \<and> (\<forall>t. timers (onclose s) t \<noteq> None \<longrightarrow> timers s t \<noteq> None))
   \<and> (\<not> isConnected s \<and> \<not> isConnecting s \<and> endpoint_ok s \<longrightarrow>
      sockets (call s rnd method ps) = Suc (sockets s)
    \<and> isConnecting (call s rnd method ps)
    \<and> queue (call s rnd method ps) = queue s @ [(make_payload rnd method ps, promises s)]
    \<and> queue (onopen (call s rnd method ps) k) = []
    \<and> sent (onopen (call s rnd method ps) k) =
        sent s @ replay_frames s @ queue_frames s @ [stringify (make_payload rnd method ps)])
   \<and> sockets demo_gone = 3 \<and> retryCount demo_gone = 2 \<and> \<not> isConnected demo_gone
   \<and> \<not> isConnecting demo_gone \<and> (\<forall>t. timers demo_gone t = None)
   \<and> onUnhandled demo_gone = Warn \<and> \<not> exited demo_gone"
proof -
  have a: "autoReconnect (opts s) \<and> retryCount s < maxRetries (opts s) \<longrightarrow>
      retryCount (onclose s) = retryCount s + 1
    \<and> timers (onclose s) (nextTimer s) = Some (reconnectInterval (opts s), T_reconnect)
    \<and> nextTimer (onclose s) = Suc (nextTimer s)
    \<and> (endpoint_ok s \<longrightarrow> sockets (fire_timer (onclose s) (nextTimer s)) = Suc (sockets s))"
  proof (intro impI)
    assume h: "autoReconnect (opts s) \<and> retryCount s < maxRetries (opts s)"
    then have t: "timers (onclose s) (nextTimer s) = Some (reconnectInterval (opts s), T_reconnect)"
      and r: "retryCount (onclose s) = retryCount s + 1"
      and n: "nextTimer (onclose s) = Suc (nextTimer s)"
      by (simp_all add: onclose_def Let_def attemptReconnect_def setTimer_def)
    from t have "fire_timer (onclose s) (nextTimer s) = connect Discarded (clearTimer (nextTimer s) (onclose s))"
      by (simp add: fire_timer_def)
    then have "endpoint_ok s \<longrightarrow> sockets (fire_timer (onclose s) (nextTimer s)) = Suc (sockets s)"
      by (simp add: connect_def clearTimer_def onclose_fields)
    with t r n show "retryCount (onclose s) = retryCount s + 1
      \<and> timers (onclose s) (nextTimer s) = Some (reconnectInterval (opts s), T_reconnect)
      \<and> nextTimer (onclose s) = Suc (nextTimer s)
      \<and> (endpoint_ok s \<longrightarrow> sockets (fire_timer (onclose s) (nextTimer s)) = Suc (sockets s))"
      by blast
  qed
  have b: "\<not> autoReconnect (opts s) \<or> \<not> retryCount s < maxRetries (opts s) \<longrightarrow>
      retryCount (onclose s) = retryCount s
    \<and> nextTimer (onclose s) = nextTimer s
    \<and> (\<forall>t. timers (onclose s) t \<noteq> None \<longrightarrow> timers s t \<noteq> None)"
    by (auto simp: onclose_def Let_def attemptReconnect_def stopHeartbeat_def clearTimer_def
        split: option.splits if_splits)
  have c: "\<not> isConnected s \<and> \<not> isConnecting s \<and> endpoint_ok s \<longrightarrow>
      sockets (call s rnd method ps) = Suc (sockets s)
    \<and> isConnecting (call s rnd method ps)
    \<and> queue (call s rnd method ps) = queue s @ [(make_payload rnd method ps, promises s)]
    \<and> queue (onopen (call s rnd method ps) k) = []
    \<and> sent (onopen (call s rnd method ps) k) =
        sent s @ replay_frames s @ queue_frames s @ [stringify (make_payload rnd method ps)]"
  proof
    assume h: "\<not> isConnected s \<and> \<not> isConnecting s \<and> endpoint_ok s"
    then have "sockets (call s rnd method ps) = Suc (sockets s)"
      and "isConnecting (call s rnd method ps)"
      by (simp_all add: call_def Let_def connect_def)
    moreover have "queue_frames (call s rnd method ps) =
        queue_frames s @ [stringify (make_payload rnd method ps)]"
      using call_offline(2) [of s rnd "method" ps] h by (simp add: queue_frames_def)
    ultimately show "sockets (call s rnd method ps) = Suc (sockets s)
      \<and> isConnecting (call s rnd method ps)
      \<and> queue (call s rnd method ps) = queue s @ [(make_payload rnd method ps, promises s)]
      \<and> queue (onopen (call s rnd method ps) k) = []
      \<and> sent (onopen (call s rnd method ps) k) =
          sent s @ replay_frames s @ queue_frames s @ [stringify (make_payload rnd method ps)]"
      using h call_offline(2,3,5) [of s rnd "method" ps] onopen_effect [of "call s rnd method ps"]
      by simp
  qed
  have d: "sockets demo_gone = 3 \<and> retryCount demo_gone = 2 \<and> \<not> isConnected demo_gone
      \<and> \<not> isConnecting demo_gone \<and> onUnhandled demo_gone = Warn \<and> \<not> exited demo_gone"
    by code_simp
  have e: "\<forall>t. timers demo_gone t = None"
    by (simp add: demo_gone_def server_gone_def new_client_def fresh_client_def
        resolve_options_def default_to_def two_retries_def connect_def onerror_def onclose_def
        Let_def stopHeartbeat_def attemptReconnect_def setTimer_def fire_timer_def clearTimer_def)
  from a b c d e show ?thesis by blast
qed

text \<open>
  The theorem at a fresh client whose first attempt fails, and at the client that has used up
  its two retries.
\<close>

theorem reconnect_budget_witness:
  "retryCount (onclose (new_client Warn True two_retries (\<lambda>_. 0))) = 1
   \<and> timers (onclose (new_client Warn True two_retries (\<lambda>_. 0))) 0 = Some (3000, T_reconnect)
   \<and> sockets (fire_timer (onclose (new_client Warn True two_retries (\<lambda>_. 0))) 0) = 2
   \<and> retryCount (onclose demo_gone) = 2
   \<and> nextTimer (onclose demo_gone) = 2
   \<and> sockets (call demo_gone (\<lambda>_. 1) ''get_info'' []) = 4
   \<and> queue (onopen (call demo_gone (\<lambda>_. 1) ''get_info'' []) 3) = []"
proof -
  have "autoReconnect (opts (new_client Warn True two_retries (\<lambda>_. 0)))"
    and "retryCount (new_client Warn True two_retries (\<lambda>_. 0)) = 0"
    and "maxRetries (opts (new_client Warn True two_retries (\<lambda>_. 0))) = 2"
    and "reconnectInterval (opts (new_client Warn True two_retries (\<lambda>_. 0))) = 3000"
    and "nextTimer (new_client Warn True two_retries (\<lambda>_. 0)) = 0"
    and "endpoint_ok (new_client Warn True two_retries (\<lambda>_. 0))"
    and "sockets (new_client Warn True two_retries (\<lambda>_. 0)) = 1"
    by code_simp+
  moreover have "retryCount demo_gone = 2" and "maxRetries (opts demo_gone) = 2"
    and "nextTimer demo_gone = 2" and "\<not> isConnected demo_gone" and "\<not> isConnecting demo_gone"
    and "endpoint_ok demo_gone" and "sockets demo_gone = 3"
    by code_simp+
  ultimately show ?thesis
    using reconnect_budget [of "new_client Warn True two_retries (\<lambda>_. 0)"]
      reconnect_budget [of demo_gone "\<lambda>_. 1" "''get_info''" "[]"]
    by simp
qed

text \<open>
  In a runtime that only warns of an unhandled rejection, after the two retries have failed a
  call opens a fourth socket without any \<open>connect\<close> by the caller, and it is drained as soon
  as that socket opens. The same happens in a runtime that exits on an unhandled rejection, at
  a client with \<open>maxRetries = 0\<close> that has lost its socket: no promise was rejected there and
  the process has not ended. In such a runtime the scenario of the server that never comes
  back ends with the first attempt that fails.
\<close>

theorem reconnect_budget_counterexample:
  "retryCount demo_gone = 2 \<and> maxRetries (opts demo_gone) = 2
   \<and> sockets demo_gone = 3
   \<and> sockets (run demo_gone [E_call (\<lambda>_. 1) ''get_info'' []]) = 4
   \<and> map snd (queue (run demo_gone [E_call (\<lambda>_. 1) ''get_info'' []])) = [0]
   \<and> queue (run demo_gone [E_call (\<lambda>_. 1) ''get_info'' [], E_open 3]) = []
   \<and> sent (run demo_gone [E_call (\<lambda>_. 1) ''get_info'' [], E_open 3]) =
       [Frame (Some (uuid (\<lambda>_. 1))) ''get_info'' (Some P_empty_string)]
   \<and> onUnhandled demo_gone = Warn
   \<and> \<not> exited (run demo_gone [E_call (\<lambda>_. 1) ''get_info'' [], E_open 3])
   \<and> retryCount demo_spent = 0 \<and> maxRetries (opts demo_spent) = 0
   \<and> nextTimer demo_spent = 1 \<and> timers demo_spent 0 = None
   \<and> \<not> isConnected demo_spent \<and> \<not> isConnecting demo_spent
   \<and> sockets demo_spent = 1
   \<and> sockets (run demo_spent [E_call (\<lambda>_. 1) ''get_info'' []]) = 2
   \<and> map snd (queue (run demo_spent [E_call (\<lambda>_. 1) ''get_info'' []])) = [0]
   \<and> queue (run demo_spent [E_call (\<lambda>_. 1) ''get_info'' [], E_open 1]) = []
   \<and> sent (run demo_spent [E_call (\<lambda>_. 1) ''get_info'' [], E_open 1]) =
       [Frame (Some (uuid (\<lambda>_. 1))) ''get_info'' (Some P_empty_string)]
   \<and> onUnhandled demo_spent = Exit
   \<and> \<not> exited (run demo_spent [E_call (\<lambda>_. 1) ''get_info'' [], E_open 1])
   \<and> exited (run (new_client Exit True two_retries (\<lambda>_. 0)) [E_error 0])"
  by code_simp


subsection \<open>Offline queue\<close>

text \<open>
  C5. Calls made while the client is not connected are appended to the queue in the order
  they are made, and nothing is sent. When the socket then opens, the frames of the queue
  are sent in that order, after the replay of the registry, and the queue ends empty. The
  loop that drains stops as soon as the client is not connected, leaving the queue as it is:
  it does nothing on a client that is not connected, and when the socket closes inside the
  send of entry \<open>i\<close> of the drain, the entries up to \<open>i\<close> have been sent, in order, the entries
  after \<open>i\<close> stay queued, in order, and the next open sends them, in that order. On a socket
  that does not close inside a send, the drain is the complete one.
\<close>

theorem offline_queue_fifo:
  assumes "\<not> isConnected s"
  shows "map fst (queue (run s (map call_event cs))) = map fst (queue s) @ map call_payload cs
       \<and> sent (run s (map call_event cs)) = sent s
       \<and> pending (run s (map call_event cs)) = pending s
       \<and> sent (onopen (run s (map call_event cs)) k) =
           sent s @ replay_frames s @ queue_frames s @ map (\<lambda>c. stringify (call_payload c)) cs
       \<and> queue (onopen (run s (map call_event cs)) k) = []
       \<and> processQueue s = s
       \<and> processQueue_closing closes s = s
       \<and> (i < length (queue d) \<and> (\<forall>j<i. \<not> closes j) \<and> closes i \<longrightarrow>
            sent (onopen_closing closes d k) =
              sent d @ replay_frames d @ take (Suc i) (queue_frames d)
          \<and> queue (onopen_closing closes d k) = drop (Suc i) (queue d)
          \<and> \<not> isConnected (onopen_closing closes d k)
          \<and> sent (onopen (onopen_closing closes d k) k') =
              sent (onopen_closing closes d k) @ replay_frames d @ drop (Suc i) (queue_frames d)
          \<and> queue (onopen (onopen_closing closes d k) k') = [])
       \<and> ((\<forall>j<length (queue d). \<not> closes j) \<longrightarrow> onopen_closing closes d k = onopen d k)"
proof -
  let ?s = "run s (map call_event cs)"
  note c = calls_offline [OF assms, of cs]
  have "queue_frames ?s = map stringify (map fst (queue ?s))"
    by (simp add: queue_frames_def)
  also have "\<dots> = queue_frames s @ map (\<lambda>c. stringify (call_payload c)) cs"
    using c by (simp add: queue_frames_def)
  finally have "sent (onopen ?s k) =
      sent s @ replay_frames s @ queue_frames s @ map (\<lambda>c. stringify (call_payload c)) cs"
    using onopen_effect [of ?s] c by simp
  then have 1: "map fst (queue ?s) = map fst (queue s) @ map call_payload cs
       \<and> sent ?s = sent s \<and> pending ?s = pending s
       \<and> sent (onopen ?s k) =
           sent s @ replay_frames s @ queue_frames s @ map (\<lambda>c. stringify (call_payload c)) cs
       \<and> queue (onopen ?s k) = []
       \<and> processQueue s = s
       \<and> processQueue_closing closes s = s"
    using c onopen_effect [of ?s] processQueue_disconnected [OF assms]
      processQueue_closing_disconnected [OF assms] by simp
  have 2: "sent (onopen_closing closes d k) =
              sent d @ replay_frames d @ take (Suc i) (queue_frames d)
          \<and> queue (onopen_closing closes d k) = drop (Suc i) (queue d)
          \<and> \<not> isConnected (onopen_closing closes d k)
          \<and> sent (onopen (onopen_closing closes d k) k') =
              sent (onopen_closing closes d k) @ replay_frames d @ drop (Suc i) (queue_frames d)
          \<and> queue (onopen (onopen_closing closes d k) k') = []"
    if h: "i < length (queue d) \<and> (\<forall>j<i. \<not> closes j) \<and> closes i"
  proof -
    from h have h1: "i < length (queue d)" and h2: "\<forall>j<i. \<not> closes j" and h3: "closes i"
      by blast+
    note st = onopen_closing_stops [OF h1 h2 h3, of k]
    have "queue_frames (onopen_closing closes d k) = drop (Suc i) (queue_frames d)"
      using st(2) by (simp add: queue_frames_def drop_map)
    then have "sent (onopen (onopen_closing closes d k) k') =
        sent (onopen_closing closes d k) @ replay_frames d @ drop (Suc i) (queue_frames d)"
      using onopen_effect [of "onopen_closing closes d k" k'] st(4) by simp
    then show ?thesis
      using st(1,2,3) onopen_effect [of "onopen_closing closes d k" k'] by simp
  qed
  have 3: "(\<forall>j<length (queue d). \<not> closes j) \<longrightarrow> onopen_closing closes d k = onopen d k"
    by (simp add: onopen_closing_quiet)
  from 1 2 3 show ?thesis by blast
qed

text \<open>
  The theorem at a fresh client on which two calls are made before the socket opens: on a
  socket that closes inside the first send of the drain, the first call is sent and the
  second stays queued; the next open sends it.
\<close>

theorem offline_queue_fifo_witness:
  "map fst (queue demo_two_queued) =
     [make_payload (\<lambda>_. 1) ''get_info'' [], make_payload (\<lambda>_. 2) ''get_abi'' [(''account_name'', ''eosio'')]]
   \<and> sent (onopen demo_two_queued 0) =
     [stringify (make_payload (\<lambda>_. 1) ''get_info'' []),
      stringify (make_payload (\<lambda>_. 2) ''get_abi'' [(''account_name'', ''eosio'')])]
   \<and> sent (onopen_closing (\<lambda>j. j = 0) demo_two_queued 0) =
     [stringify (make_payload (\<lambda>_. 1) ''get_info'' [])]
   \<and> map fst (queue (onopen_closing (\<lambda>j. j = 0) demo_two_queued 0)) =
     [make_payload (\<lambda>_. 2) ''get_abi'' [(''account_name'', ''eosio'')]]
   \<and> \<not> isConnected (onopen_closing (\<lambda>j. j = 0) demo_two_queued 0)
   \<and> sent (onopen (onopen_closing (\<lambda>j. j = 0) demo_two_queued 0) 1) =
     [stringify (make_payload (\<lambda>_. 1) ''get_info'' []),
      stringify (make_payload (\<lambda>_. 2) ''get_abi'' [(''account_name'', ''eosio'')])]
   \<and> onopen_closing (\<lambda>j. False) demo_two_queued 0 = onopen demo_two_queued 0"
proof -
  have d: "\<not> isConnected (new_client Exit True no_options (\<lambda>_. 0))" by code_simp
  have q: "queue (new_client Exit True no_options (\<lambda>_. 0)) = []" by code_simp
  have s: "sent (new_client Exit True no_options (\<lambda>_. 0)) = []" by code_simp
  have r: "replay_frames (new_client Exit True no_options (\<lambda>_. 0)) = []" by code_simp
  have l: "length (queue demo_two_queued) = 2" by code_simp
  have s2: "sent demo_two_queued = []" by code_simp
  have r2: "replay_frames demo_two_queued = []" by code_simp
  have q2: "map fst (queue demo_two_queued) =
      [make_payload (\<lambda>_. 1) ''get_info'' [], make_payload (\<lambda>_. 2) ''get_abi'' [(''account_name'', ''eosio'')]]"
    by code_simp
  have f2: "queue_frames demo_two_queued =
      [stringify (make_payload (\<lambda>_. 1) ''get_info'' []),
       stringify (make_payload (\<lambda>_. 2) ''get_abi'' [(''account_name'', ''eosio'')])]"
    unfolding queue_frames_def using arg_cong [OF q2, of "map stringify"]
    by (simp add: comp_def)
  have m: "map fst (drop (Suc 0) (queue demo_two_queued)) =
      [make_payload (\<lambda>_. 2) ''get_abi'' [(''account_name'', ''eosio'')]]"
    using q2 by (simp add: drop_map [symmetric])
  note t1 = offline_queue_fifo [OF d,
      where cs = "[(\<lambda>_. 1, ''get_info'', []), (\<lambda>_. 2, ''get_abi'', [(''account_name'', ''eosio'')])]"
      and k = 0 and k' = 1 and i = 0 and closes = "\<lambda>j. j = 0" and d = demo_two_queued,
      folded demo_two_queued_def]
  note t2 = offline_queue_fifo [OF d,
      where cs = "[(\<lambda>_. 1, ''get_info'', []), (\<lambda>_. 2, ''get_abi'', [(''account_name'', ''eosio'')])]"
      and k = 0 and closes = "\<lambda>j. False" and d = demo_two_queued,
      folded demo_two_queued_def]
  have qf: "queue_frames (new_client Exit True no_options (\<lambda>_. 0)) = []"
    using q by (simp add: queue_frames_def)
  show ?thesis
    using t1 t2 q qf s r l s2 r2 f2 m
    by (simp add: call_payload_def drop_map)
qed

subsection \<open>Subscriptions\<close>



text \<open>
  C10. The client draws one identifier when it is constructed and never changes it. In every
  run in which no call happens to draw that same identifier, every control frame sent
  (subscribe or unsubscribe, for tables or traces, at registration, at removal or in a replay)
  carries that identifier as its \<open>request_id\<close>, and no call is ever pending under it; so a
  response that carries it is dropped: the client stays as it is.
\<close>

theorem control_frames_share_id:
  assumes "list_all (foreign_call (uuid rnd)) evs"
  shows "client_id (run (new_client mode ok ro rnd) evs) = uuid rnd
       \<and> (\<forall>f\<in>set (sent (run (new_client mode ok ro rnd) evs)).
            is_control f \<longrightarrow> f_request_id f = Some (uuid rnd))
       \<and> (\<forall>f\<in>set (replay_frames (run (new_client mode ok ro rnd) evs)).
            is_control f \<and> f_request_id f = Some (uuid rnd))
       \<and> (subscription_event e \<longrightarrow>
            (\<exists>fs. sent (step (run (new_client mode ok ro rnd) evs) e) =
                    sent (run (new_client mode ok ro rnd) evs) @ fs
                \<and> (\<forall>f\<in>set fs. is_control f \<and> f_request_id f = Some (uuid rnd))))
       \<and> pending (run (new_client mode ok ro rnd) evs) (uuid rnd) = None
       \<and> (m_type msg \<noteq> Some ''pong'' \<and> m_type msg \<noteq> Some ''table_delta''
            \<and> m_type msg \<noteq> Some ''action_trace'' \<and> m_request_id msg = Some (uuid rnd) \<longrightarrow>
            handleMessage thr (run (new_client mode ok ro rnd) evs) (Json msg) =
              run (new_client mode ok ro rnd) evs)"
proof -
  let ?s = "run (new_client mode ok ro rnd) evs"
  have inv: "control_inv (uuid rnd) ?s"
    using control_inv_new_client assms by (rule control_inv_run)
  then have i: "client_id ?s = uuid rnd" and p: "pending ?s (uuid rnd) = None"
    and f: "\<forall>f\<in>set (sent ?s). is_control f \<longrightarrow> f_request_id f = Some (uuid rnd)"
    by (simp_all add: control_inv_def)
  have r: "\<forall>f\<in>set (replay_frames ?s). is_control f \<and> f_request_id f = Some (uuid rnd)"
    using replay_frames_control [of _ ?s] i by simp
  have e: "subscription_event e \<longrightarrow>
            (\<exists>fs. sent (step ?s e) = sent ?s @ fs
                \<and> (\<forall>f\<in>set fs. is_control f \<and> f_request_id f = Some (uuid rnd)))"
    using subscription_event_frames [of e ?s] i by simp
  have h: "m_type msg \<noteq> Some ''pong'' \<and> m_type msg \<noteq> Some ''table_delta''
            \<and> m_type msg \<noteq> Some ''action_trace'' \<and> m_request_id msg = Some (uuid rnd) \<longrightarrow>
            handleMessage thr ?s (Json msg) = ?s"
    using p by (simp add: handleMessage_def)
  from i f r e p h show ?thesis by blast
qed

text \<open>
  The theorem at a run with subscriptions, a call, a closure and a second open, which replays.
\<close>

theorem control_frames_share_id_witness:
  "client_id (run (new_client Exit True no_options (\<lambda>_. 0)) demo_mixed) = uuid (\<lambda>_. 0)
   \<and> pending (run (new_client Exit True no_options (\<lambda>_. 0)) demo_mixed) (uuid (\<lambda>_. 0)) = None
   \<and> handleMessage (\<lambda>_. False) (run (new_client Exit True no_options (\<lambda>_. 0)) demo_mixed)
       (Json (demo_response None (uuid (\<lambda>_. 0)))) =
     run (new_client Exit True no_options (\<lambda>_. 0)) demo_mixed"
proof -
  have h: "list_all (foreign_call (uuid (\<lambda>_. 0))) demo_mixed" by code_simp
  show ?thesis
    using control_frames_share_id [OF h, of Exit True no_options "E_open 0"
        "demo_response None (uuid (\<lambda>_. 0))" "\<lambda>_. False"]
    by (simp add: demo_response_def)
qed

subsection \<open>Correlation\<close>

text \<open>
  C1. Take any run of a client from its construction in which the identifiers drawn are
  fresh, and in it a call made while the client is connected. The promise of that call has
  no outcome before the call, and at every later moment it has at most one outcome: a
  response and the deadline never both settle it. As long as it has no outcome, the call is
  pending under its identifier and its deadline timer is armed, and when that timer goes off
  the promise is rejected with the timeout error, which is then its one outcome.
\<close>

theorem call_settles_once:
  assumes "fresh_ids (new_client mode ok ro rnd0) (pre @ E_call rnd method ps # post)"
    and "isConnected (run (new_client mode ok ro rnd0) pre)"
  shows "outcomes (promises (run (new_client mode ok ro rnd0) pre)) (run (new_client mode ok ro rnd0) pre) = []
       \<and> length (outcomes (promises (run (new_client mode ok ro rnd0) pre))
            (run (new_client mode ok ro rnd0) (pre @ E_call rnd method ps # post))) \<le> 1
       \<and> (outcomes (promises (run (new_client mode ok ro rnd0) pre))
            (run (new_client mode ok ro rnd0) (pre @ E_call rnd method ps # post)) = [] \<longrightarrow>
          (\<exists>rid t d.
             pending (run (new_client mode ok ro rnd0) (pre @ E_call rnd method ps # post)) rid =
               Some (promises (run (new_client mode ok ro rnd0) pre), t)
           \<and> timers (run (new_client mode ok ro rnd0) (pre @ E_call rnd method ps # post)) t =
               Some (d, T_timeout rid (promises (run (new_client mode ok ro rnd0) pre)))
           \<and> outcomes (promises (run (new_client mode ok ro rnd0) pre))
               (fire_timer (run (new_client mode ok ro rnd0) (pre @ E_call rnd method ps # post)) t) =
               [Reject ''Request Timeout'']))"
proof -
  let ?s = "run (new_client mode ok ro rnd0) pre"
  let ?h = "promises ?s"
  let ?s1 = "call ?s rnd method ps"
  let ?s' = "run (new_client mode ok ro rnd0) (pre @ E_call rnd method ps # post)"
  have s': "?s' = run ?s1 post" by simp
  from assms(1) have f: "fresh_ids (new_client mode ok ro rnd0) pre"
    "fresh_call ?s (E_call rnd method ps)" "fresh_ids ?s1 post"
    by (simp_all add: fresh_ids_append del: fresh_call.simps)
  have c: "correlated ?s"
    using correlated_new_client f(1) by (rule correlated_run)
  then have c1: "correlated ?s1" using f(2) by (rule correlated_call)
  then have c': "correlated ?s'" unfolding s' using f(3) by (rule correlated_run)
  have ho: "handles_once ?s" using c by (simp add: correlated_def)
  have "?h \<notin> settled_handles ?s" and q: "?h \<notin> queued_handles ?s"
    using handles_onceD(7) [OF ho] by auto
  then have 1: "outcomes ?h ?s = []" by (simp add: outcomes_empty)
  have "?h < promises ?s1" and "?h \<notin> queued_handles ?s1"
    using q assms(2) by (simp_all add: call_def queued_handles_def)
  from never_queued [OF this, of post]
  have n: "?h < promises ?s'" "?h \<notin> queued_handles ?s'" unfolding s' by simp_all
  have "distinct (map fst (settled ?s'))"
    using c' by (simp add: correlated_def handles_once_def)
  from filter_fst_distinct [OF this, of ?h] have 2: "length (outcomes ?h ?s') \<le> 1"
    by (simp add: outcomes_def)
  from 1 2 correlated_unsettled [OF c' n] show ?thesis by blast
qed

text \<open>
  The theorem at a call that is answered, and at the same call while it waits.
\<close>

theorem call_settles_once_witness:
  "length (outcomes 0 (run (new_client Exit True no_options (\<lambda>_. 0))
       ([E_open 0] @ E_call (\<lambda>_. 1) ''get_info'' [] # [demo_answer]))) \<le> 1
   \<and> (\<exists>rid t d.
         pending (run (new_client Exit True no_options (\<lambda>_. 0))
            ([E_open 0] @ E_call (\<lambda>_. 1) ''get_info'' [] # [])) rid = Some (0, t)
       \<and> timers (run (new_client Exit True no_options (\<lambda>_. 0))
            ([E_open 0] @ E_call (\<lambda>_. 1) ''get_info'' [] # [])) t = Some (d, T_timeout rid 0)
       \<and> outcomes 0 (fire_timer (run (new_client Exit True no_options (\<lambda>_. 0))
            ([E_open 0] @ E_call (\<lambda>_. 1) ''get_info'' [] # [])) t) = [Reject ''Request Timeout''])"
proof -
  have f1: "fresh_ids (new_client Exit True no_options (\<lambda>_. 0))
      ([E_open 0] @ E_call (\<lambda>_. 1) ''get_info'' [] # [demo_answer])"
    by code_simp
  have f2: "fresh_ids (new_client Exit True no_options (\<lambda>_. 0))
      ([E_open 0] @ E_call (\<lambda>_. 1) ''get_info'' [] # [])"
    by code_simp
  have c: "isConnected (run (new_client Exit True no_options (\<lambda>_. 0)) [E_open 0])"
    by code_simp
  have p: "promises (run (new_client Exit True no_options (\<lambda>_. 0)) [E_open 0]) = 0"
    by code_simp
  have e: "outcomes 0 (run (new_client Exit True no_options (\<lambda>_. 0))
      ([E_open 0] @ E_call (\<lambda>_. 1) ''get_info'' [] # [])) = []"
    by code_simp
  show ?thesis
    using call_settles_once [OF f1 c] call_settles_once [OF f2 c] e
    unfolding p by blast
qed

end
